theory Spec2Isabelle
  imports Complex_Main "HOL-Library.Product_Lexorder" "HOL-Library.Multiset"
begin

section \<open>Calendar dates\<close>

text \<open>
  A \<^verbatim>\<open>datetime.date\<close> is a triple of year, month and day. Its ordinal, the
  difference of two dates in days and the leap-year rule are those of the Python standard
  library (\<^verbatim>\<open>_ymd2ord\<close>, \<^verbatim>\<open>_days_before_year\<close>, \<^verbatim>\<open>_days_before_month\<close>,
  \<^verbatim>\<open>_is_leap\<close>). The year is an unbounded integer: the library's limits
  \<^verbatim>\<open>MINYEAR = 1\<close> and \<^verbatim>\<open>MAXYEAR = 9999\<close> are not part of the model.
\<close>

record date =
  year :: int
  month :: int
  day :: int

definition is_leap :: "int \<Rightarrow> bool" where
  "is_leap y = (y mod 4 = 0 \<and> (y mod 100 \<noteq> 0 \<or> y mod 400 = 0))"

definition days_in_month :: "int \<Rightarrow> int \<Rightarrow> int" where
  "days_in_month y m =
     (if m = 2 then (if is_leap y then 29 else 28)
      else if m = 4 \<or> m = 6 \<or> m = 9 \<or> m = 11 then 30
      else 31)"

definition days_before_year :: "int \<Rightarrow> int" where
  "days_before_year y =
     (y - 1) * 365 + (y - 1) div 4 - (y - 1) div 100 + (y - 1) div 400"

definition days_before_month :: "int \<Rightarrow> int \<Rightarrow> int" where
  "days_before_month y m = sum_list (map (days_in_month y) [1..m - 1])"

definition toordinal :: "date \<Rightarrow> int" where
  "toordinal d = days_before_year (year d) + days_before_month (year d) (month d) + day d"

definition valid_date :: "date \<Rightarrow> bool" where
  "valid_date d =
     (1 \<le> month d \<and> month d \<le> 12 \<and> 1 \<le> day d \<and> day d \<le> days_in_month (year d) (month d))"

text \<open>\<^verbatim>\<open>(a - b).days\<close>, and the comparisons of two dates. Python compares the triples
  lexicographically; on valid dates that is the order of the ordinals
  (lemma \<open>date_order_is_lexicographic\<close> below).\<close>

definition days_between :: "date \<Rightarrow> date \<Rightarrow> int" where
  "days_between a b = toordinal a - toordinal b"

definition date_lt :: "date \<Rightarrow> date \<Rightarrow> bool" where
  "date_lt a b = (toordinal a < toordinal b)"

definition date_le :: "date \<Rightarrow> date \<Rightarrow> bool" where
  "date_le a b = (toordinal a \<le> toordinal b)"

text \<open>Modelled from the spec: \<^verbatim>\<open>shift_month(d, n)\<close> of the module
  \<^verbatim>\<open>ukcalendar\<close>, which is not among the sources. The spec describes it as the
  month shift that clamps the day to the end of the month.\<close>

definition shift_month :: "date \<Rightarrow> int \<Rightarrow> date" where
  "shift_month d n =
     (let m0 = month d - 1 + n;
          y = year d + m0 div 12;
          m = m0 mod 12 + 1
      in \<lparr>year = y, month = m, day = min (day d) (days_in_month y m)\<rparr>)"

text \<open>Months counted from year 0: the first day of a month and its length, for the proofs
  about month shifts.\<close>

definition month_index :: "date \<Rightarrow> int" where
  "month_index d = year d * 12 + (month d - 1)"

definition month_start :: "int \<Rightarrow> int" where
  "month_start i = days_before_year (i div 12) + days_before_month (i div 12) (i mod 12 + 1)"

definition month_len :: "int \<Rightarrow> int" where
  "month_len i = days_in_month (i div 12) (i mod 12 + 1)"

section \<open>Errors\<close>

text \<open>The exceptions of the source are values. \<open>NotReal\<close> stands for the results that
  leave the real numbers (Python's \<^verbatim>\<open>**\<close> gives a complex number for a negative base and
  a fractional exponent), \<open>SolverError\<close> for whatever the numeric root finder raises.\<close>

datatype error = AssertionError | IndexError | ZeroDivisionError | NotReal | SolverError

definition and_then :: "error + 'a \<Rightarrow> ('a \<Rightarrow> error + 'b) \<Rightarrow> error + 'b" where
  "and_then r f = (case r of Inl e \<Rightarrow> Inl e | Inr x \<Rightarrow> f x)"

text \<open>Python floats are read as real numbers: a sum, product or quotient of the source is the
  sum, product or quotient of the reals, without the rounding of the double. The theorems
  below state a result as the expression that the source evaluates, operation for
  operation; none of them rests on undoing an operation (as in \<open>(p + a) - a = p\<close>), which
  holds for the reals and not for doubles. \<^verbatim>\<open>a / b\<close> raises on a zero divisor.\<close>

definition true_div :: "real \<Rightarrow> real \<Rightarrow> error + real" where
  "true_div a b = (if b = 0 then Inl ZeroDivisionError else Inr (a / b))"

definition py_pow :: "real \<Rightarrow> real \<Rightarrow> error + real" where
  "py_pow x y =
     (if 0 < x then Inr (x powr y)
      else if x = 0 then (if 0 < y then Inr 0 else if y = 0 then Inr 1 else Inl ZeroDivisionError)
      else if y = of_int \<lfloor>y\<rfloor> then Inr ((if even \<lfloor>y\<rfloor> then 1 else - 1) * ((- x) powr y))
      else Inl NotReal)"

text \<open>The built-in \<^verbatim>\<open>round(x, n)\<close> rounds the double \<open>x\<close>, which the reals do not have:
  every function that rounds takes the rounding as its first argument, and the theorems
  hold for any rounding. For the concrete instances \<open>py_round\<close> rounds the real number to the
  nearest multiple of \<open>10\<^sup>-\<^sup>n\<close>, ties to the even one; no instance rounds a tie.\<close>

definition round_half_even :: "real \<Rightarrow> int" where
  "round_half_even x =
     (let f = \<lfloor>x\<rfloor>; r = x - of_int f
      in if r < 1 / 2 then f else if 1 / 2 < r then f + 1 else if even f then f else f + 1)"

definition py_round :: "real \<Rightarrow> nat \<Rightarrow> real" where
  "py_round x n = of_int (round_half_even (x * 10 ^ n)) / 10 ^ n"

section \<open>Conventional gilts\<close>

record gilt =
  name :: string
  isin :: string
  coupon :: real
  maturity :: date
  issue_date :: date

definition min_coupon_days :: int where
  "min_coupon_days = 60"

text \<open>The loop of \<^verbatim>\<open>Gilt.coupon_dates\<close>. Its state is the list of dates appended
  so far, the current \<^verbatim>\<open>prev_coupon_date\<close> and the counter \<^verbatim>\<open>periods\<close>.\<close>

function coupon_loop :: "'a gilt_scheme \<Rightarrow> date \<Rightarrow> date list \<Rightarrow> date \<Rightarrow> nat \<Rightarrow> date \<times> date list" where
  "coupon_loop g settlement next_coupon_dates prev_coupon_date periods =
     (if min_coupon_days \<le> days_between prev_coupon_date (issue_date g) then
        (let next_coupon_dates' = next_coupon_dates @ [prev_coupon_date];
             periods' = periods + 1;
             prev_coupon_date' = shift_month (maturity g) (- 6 * int periods')
         in if date_lt prev_coupon_date' settlement
            then (prev_coupon_date', next_coupon_dates')
            else coupon_loop g settlement next_coupon_dates' prev_coupon_date' periods')
      else (prev_coupon_date, next_coupon_dates))"
  by pat_completeness auto

definition coupon_dates :: "'a gilt_scheme \<Rightarrow> date \<Rightarrow> error + date \<times> date list" where
  "coupon_dates g settlement_date =
     (if \<not> date_le (issue_date g) settlement_date then Inl AssertionError
      else if \<not> date_le settlement_date (maturity g) then Inl AssertionError
      else (case coupon_loop g settlement_date [] (maturity g) 0 of
              (prev_coupon_date, next_coupon_dates) \<Rightarrow>
                Inr (prev_coupon_date, rev next_coupon_dates)))"

text \<open>The candidate coupon dates: the maturity, and the maturity shifted back by six months
  \<open>k\<close> times.\<close>

definition candidate :: "'a gilt_scheme \<Rightarrow> nat \<Rightarrow> date" where
  "candidate g k = (if k = 0 then maturity g else shift_month (maturity g) (- 6 * int k))"

definition prev_next_coupon_date :: "'a gilt_scheme \<Rightarrow> date \<Rightarrow> error + date \<times> date" where
  "prev_next_coupon_date g settlement_date =
     and_then (coupon_dates g settlement_date) (\<lambda>(prev_coupon_date, next_coupon_dates).
       case next_coupon_dates of
         [] \<Rightarrow> Inl IndexError
       | next_coupon_date # _ \<Rightarrow> Inr (prev_coupon_date, next_coupon_date))"

text \<open>\<^verbatim>\<open>prev_business_day\<close> belongs to the module \<^verbatim>\<open>ukcalendar\<close> and to the
  bank-holiday table, which are not among the sources: every function that needs it takes
  it as its first argument.\<close>

definition ex_dividend_date :: "(date \<Rightarrow> date) \<Rightarrow> date \<Rightarrow> date" where
  "ex_dividend_date prev_business_day coupon_date =
     fold (\<lambda>i xd_date. prev_business_day xd_date) [0..<7] coupon_date"

datatype period_kind = SHORT | STANDARD | LONG

definition period :: "'a gilt_scheme \<Rightarrow> date \<Rightarrow> period_kind" where
  "period g prev_coupon_date =
     (if min_coupon_days \<le> days_between prev_coupon_date (issue_date g) then STANDARD
      else if date_le prev_coupon_date (issue_date g) then SHORT
      else LONG)"

definition accrued_interest :: "(date \<Rightarrow> date) \<Rightarrow> 'a gilt_scheme \<Rightarrow> date \<Rightarrow> error + real" where
  "accrued_interest prev_business_day g settlement_date =
     and_then (prev_next_coupon_date g settlement_date) (\<lambda>(prev_coupon_date, next_coupon_date).
       let dividend = coupon g / 2;
           full_coupon_days = days_between next_coupon_date prev_coupon_date;
           xd_date = ex_dividend_date prev_business_day next_coupon_date
       in and_then
            (case period g prev_coupon_date of
               STANDARD \<Rightarrow>
                 (let interest_days = days_between settlement_date prev_coupon_date
                  in and_then (true_div (of_int interest_days) (of_int full_coupon_days)) (\<lambda>a.
                       Inr (if date_lt xd_date settlement_date then a - 1 else a)))
             | SHORT \<Rightarrow>
                 (let interest_days = days_between settlement_date (issue_date g);
                      coupon_days = days_between next_coupon_date (issue_date g)
                  in if date_le settlement_date xd_date
                     then true_div (of_int interest_days) (of_int full_coupon_days)
                     else true_div (of_int (interest_days - coupon_days)) (of_int full_coupon_days))
             | LONG \<Rightarrow>
                 (let prev_prev_coupon_date = shift_month prev_coupon_date (- 6);
                      prev_full_coupon_days = days_between prev_coupon_date prev_prev_coupon_date
                  in if date_lt settlement_date prev_coupon_date
                     then (let interest_days = days_between settlement_date (issue_date g)
                           in true_div (of_int interest_days) (of_int prev_full_coupon_days))
                     else (let interest_days = days_between settlement_date prev_coupon_date
                           in if date_le settlement_date xd_date
                              then and_then (true_div (of_int (days_between prev_coupon_date (issue_date g)))
                                               (of_int prev_full_coupon_days)) (\<lambda>x.
                                   and_then (true_div (of_int interest_days) (of_int full_coupon_days)) (\<lambda>y.
                                     Inr (x + y)))
                              else and_then (true_div (of_int interest_days) (of_int full_coupon_days)) (\<lambda>y.
                                     Inr (y - 1)))))
            (\<lambda>accrued. Inr (accrued * dividend)))"

definition dirty_price :: "(date \<Rightarrow> date) \<Rightarrow> 'a gilt_scheme \<Rightarrow> real \<Rightarrow> date \<Rightarrow> error + real" where
  "dirty_price prev_business_day g clean settlement_date =
     and_then (accrued_interest prev_business_day g settlement_date) (\<lambda>a. Inr (clean + a))"

definition cash_flows :: "(date \<Rightarrow> date) \<Rightarrow> 'a gilt_scheme \<Rightarrow> date \<Rightarrow> error + (date \<times> real) list" where
  "cash_flows prev_business_day g settlement_date =
     (if date_lt (ex_dividend_date prev_business_day (maturity g)) settlement_date then Inr []
      else and_then (coupon_dates g settlement_date) (\<lambda>(prev_coupon_date, next_coupon_dates).
        case next_coupon_dates of
          [] \<Rightarrow> Inl IndexError
        | next_coupon_date # rest \<Rightarrow>
            and_then
              (if date_lt (ex_dividend_date prev_business_day next_coupon_date) settlement_date
               then Inr ([], rest)
               else (case period g prev_coupon_date of
                       STANDARD \<Rightarrow> Inr ([], next_coupon_dates)
                     | SHORT \<Rightarrow>
                         and_then (true_div (of_int (days_between next_coupon_date (issue_date g)))
                                            (of_int (days_between next_coupon_date prev_coupon_date))) (\<lambda>r.
                           Inr ([(next_coupon_date, r * coupon g / 2)], rest))
                     | LONG \<Rightarrow>
                         (let prev_prev_coupon_date = shift_month prev_coupon_date (- 6)
                          in and_then (true_div (of_int (days_between prev_coupon_date (issue_date g)))
                                         (of_int (days_between prev_coupon_date prev_prev_coupon_date))) (\<lambda>q.
                               Inr ([(next_coupon_date, (q + 1) * coupon g / 2)], rest)))))
              (\<lambda>(transactions, remaining).
                 Inr (transactions @ map (\<lambda>d. (d, coupon g / 2)) remaining @ [(maturity g, 100)]))))"

text \<open>\<^verbatim>\<open>Gilt.ytm\<close>, in the two parts of its body. The first part chooses the period
  and the first two dividends: the branches of the source assign \<^verbatim>\<open>prev_coupon_date\<close>,
  \<^verbatim>\<open>next_coupon_date\<close>, \<^verbatim>\<open>n\<close>, \<^verbatim>\<open>d1\<close> and \<^verbatim>\<open>d2\<close>, here they return
  the five values.\<close>

definition ytm_period :: "(date \<Rightarrow> date) \<Rightarrow> 'a gilt_scheme \<Rightarrow> date \<Rightarrow> date \<Rightarrow> date \<Rightarrow> int \<Rightarrow>
    error + date \<times> date \<times> int \<times> real \<times> real" where
  "ytm_period prev_business_day g settlement_date prev_coupon_date next_coupon_date n =
     (let c = coupon g;
          f = 2;
          d1 = c / f;
          d2 = c / f;
          xd_date = ex_dividend_date prev_business_day next_coupon_date
      in if date_lt xd_date settlement_date
         then Inr (prev_coupon_date, next_coupon_date, n, 0, d2)
         else (case period g prev_coupon_date of
            STANDARD \<Rightarrow> Inr (prev_coupon_date, next_coupon_date, n, d1, d2)
          | SHORT \<Rightarrow>
              if \<not> date_le prev_coupon_date (issue_date g) then Inl AssertionError
              else if \<not> date_le (issue_date g) next_coupon_date then Inl AssertionError
              else and_then (true_div (of_int (days_between next_coupon_date (issue_date g)))
                               (of_int (days_between next_coupon_date prev_coupon_date))) (\<lambda>q.
                     Inr (prev_coupon_date, next_coupon_date, n, d1 * q, d2))
          | LONG \<Rightarrow>
              (let prev_prev_coupon_date = shift_month prev_coupon_date (- 6)
               in and_then (true_div (of_int (days_between prev_coupon_date (issue_date g)))
                              (of_int (days_between prev_coupon_date prev_prev_coupon_date))) (\<lambda>q.
                    let d1' = d1 * (1 + q)
                    in if date_le settlement_date prev_coupon_date
                       then (if \<not> date_le prev_prev_coupon_date (issue_date g) then Inl AssertionError
                             else if \<not> date_le (issue_date g) prev_coupon_date then Inl AssertionError
                             else Inr (prev_prev_coupon_date, prev_coupon_date, n + 1, 0, d1'))
                       else Inr (prev_coupon_date, next_coupon_date, n, d1', d2)))))"

text \<open>The second part checks the assertions and solves for the yield. The root finder
  \<^verbatim>\<open>scipy.optimize.newton\<close> is an argument: it is given the function \<^verbatim>\<open>fn\<close> and
  the seed, and \<open>None\<close> is any exception it raises.\<close>

definition ytm_solve :: "((real \<Rightarrow> error + real) \<Rightarrow> real \<Rightarrow> real option) \<Rightarrow> 'a gilt_scheme \<Rightarrow>
    real \<Rightarrow> date \<Rightarrow> date \<times> date \<times> int \<times> real \<times> real \<Rightarrow> error + real" where
  "ytm_solve newton g P settlement_date = (\<lambda>(prev_coupon_date, next_coupon_date, n, d1, d2).
     let c = coupon g;
         f = 2
     in if \<not> date_lt prev_coupon_date settlement_date then Inl AssertionError
        else if \<not> date_le settlement_date next_coupon_date then Inl AssertionError
        else (let r = days_between next_coupon_date settlement_date
              in if \<not> 0 \<le> r then Inl AssertionError
                 else (let s = days_between next_coupon_date prev_coupon_date
                       in if \<not> (181 \<le> s \<and> s \<le> 184) then Inl AssertionError
                          else if 0 < n then
                            (let fn = (\<lambda>v.
                                   and_then (true_div (of_int r) (of_int s)) (\<lambda>e.
                                   and_then (py_pow v e) (\<lambda>a.
                                   and_then (true_div (c * v ^ 2) (f * (1 - v))) (\<lambda>b.
                                     Inr (a * (d1 + d2 * v + b * (1 - v ^ nat (n - 1)) + 100 * v ^ nat n) - P)))));
                                 v0 = 1 / (1 + 5 / 100 / f)
                             in case newton fn v0 of
                                  None \<Rightarrow> Inl SolverError
                                | Some v \<Rightarrow> and_then (true_div 1 v) (\<lambda>w. Inr ((w - 1) * f)))
                          else and_then (true_div (d1 + 100) P) (\<lambda>b.
                               and_then (true_div (of_int s) (of_int r)) (\<lambda>e.
                               and_then (py_pow b e) (\<lambda>p. Inr (f * (p - 1))))))))"

definition ytm :: "((real \<Rightarrow> error + real) \<Rightarrow> real \<Rightarrow> real option) \<Rightarrow> (date \<Rightarrow> date) \<Rightarrow>
    'a gilt_scheme \<Rightarrow> real \<Rightarrow> date \<Rightarrow> error + real" where
  "ytm newton prev_business_day g dirty settlement_date =
     (let P = dirty
      in and_then (coupon_dates g settlement_date) (\<lambda>(prev_coupon_date, next_coupon_dates).
           case next_coupon_dates of
             [] \<Rightarrow> Inl IndexError
           | next_coupon_date # _ \<Rightarrow>
               (let n = int (length next_coupon_dates) - 1
                in and_then (ytm_period prev_business_day g settlement_date
                               prev_coupon_date next_coupon_date n)
                     (ytm_solve newton g P settlement_date))))"

section \<open>Index-linked gilts\<close>

text \<open>The class \<^verbatim>\<open>RPISeries\<close> is not among the sources. An index-linked gilt holds the two
  methods of it that the gilt arithmetic calls.\<close>

record rpi_series =
  lookup_index :: "date \<Rightarrow> int"
  extrapolate_from_index :: "int \<Rightarrow> real option \<Rightarrow> real"

record index_linked_gilt = gilt +
  base_rpi :: real
  rpi_series :: rpi_series

definition inflation_rate :: real where
  "inflation_rate = 3 / 100"

text \<open>\<^verbatim>\<open>self.lag\<close> is set by the constructor from the issue date.\<close>

definition lag :: "'a index_linked_gilt_scheme \<Rightarrow> int" where
  "lag g = (if date_le \<lparr>year = 2005, month = 9, day = 22\<rparr> (issue_date g) then 3 else 8)"

definition ref_rpi :: "(real \<Rightarrow> nat \<Rightarrow> real) \<Rightarrow> 'a index_linked_gilt_scheme \<Rightarrow> date \<Rightarrow> real option \<Rightarrow>
    error + real" where
  "ref_rpi rounding g settlement_date infl =
     and_then
       (if lag g = 3 then
          (let d = settlement_date;
               month_idx = lookup_index (rpi_series g) d - lag g
           in and_then (true_div (of_int (day d - 1)) (of_int (days_in_month (year d) (month d)))) (\<lambda>weight.
                if \<not> (0 \<le> weight \<and> weight < 1) then Inl AssertionError
                else (let rpi0 = extrapolate_from_index (rpi_series g) month_idx infl;
                          rpi1 = extrapolate_from_index (rpi_series g) (month_idx + 1) infl
                      in Inr (rpi0 + weight * (rpi1 - rpi0)))))
        else if lag g \<noteq> 8 then Inl AssertionError
        else and_then (prev_next_coupon_date g settlement_date) (\<lambda>(prev_coupon_date, d).
               let month_idx = lookup_index (rpi_series g) d - lag g
               in Inr (extrapolate_from_index (rpi_series g) month_idx infl)))
       (\<lambda>ref. Inr (rounding ref 5))"

definition index_ratio :: "(real \<Rightarrow> nat \<Rightarrow> real) \<Rightarrow> 'a index_linked_gilt_scheme \<Rightarrow> date \<Rightarrow> real option \<Rightarrow>
    error + real" where
  "index_ratio rounding g settlement_date infl =
     (let infl' = (case infl of None \<Rightarrow> inflation_rate | Some r \<Rightarrow> r)
      in and_then (ref_rpi rounding g settlement_date (Some infl')) (\<lambda>ref.
         and_then (true_div ref (base_rpi g)) (\<lambda>ratio.
           Inr (if lag g = 3 then rounding ratio 5 else ratio))))"

definition il_accrued_interest :: "(real \<Rightarrow> nat \<Rightarrow> real) \<Rightarrow> (date \<Rightarrow> date) \<Rightarrow>
    'a index_linked_gilt_scheme \<Rightarrow> date \<Rightarrow> error + real" where
  "il_accrued_interest rounding prev_business_day g settlement_date =
     and_then (accrued_interest prev_business_day g settlement_date) (\<lambda>a.
     and_then (index_ratio rounding g settlement_date None) (\<lambda>ir. Inr (a * ir)))"

definition il_dirty_price :: "(real \<Rightarrow> nat \<Rightarrow> real) \<Rightarrow> (date \<Rightarrow> date) \<Rightarrow>
    'a index_linked_gilt_scheme \<Rightarrow> real \<Rightarrow> date \<Rightarrow> error + real" where
  "il_dirty_price rounding prev_business_day g clean settlement_date =
     and_then (if lag g = 3
               then and_then (index_ratio rounding g settlement_date None) (\<lambda>ir. Inr (clean * ir))
               else Inr clean) (\<lambda>clean'.
     and_then (il_accrued_interest rounding prev_business_day g settlement_date) (\<lambda>a. Inr (clean' + a)))"



text \<open>The two classes behind one interface: the method that runs is that of the object's
  class.\<close>

datatype any_gilt = Conventional gilt | IndexLinked index_linked_gilt

fun gilt_accrued_interest :: "(real \<Rightarrow> nat \<Rightarrow> real) \<Rightarrow> (date \<Rightarrow> date) \<Rightarrow> any_gilt \<Rightarrow> date \<Rightarrow>
    error + real" where
  "gilt_accrued_interest rounding pbd (Conventional g) s = accrued_interest pbd g s"
| "gilt_accrued_interest rounding pbd (IndexLinked g) s = il_accrued_interest rounding pbd g s"

fun gilt_dirty_price :: "(real \<Rightarrow> nat \<Rightarrow> real) \<Rightarrow> (date \<Rightarrow> date) \<Rightarrow> any_gilt \<Rightarrow> real \<Rightarrow> date \<Rightarrow>
    error + real" where
  "gilt_dirty_price rounding pbd (Conventional g) p s = dirty_price pbd g p s"
| "gilt_dirty_price rounding pbd (IndexLinked g) p s = il_dirty_price rounding pbd g p s"

text \<open>What the two classes share, read through the interface: the two dates, whether the
  base index can divide, and the factor between a quoted clean price and its nominal
  value, which is the index ratio for a gilt with a lag of three months (its quoted price
  is a real price) and 1 otherwise.\<close>

fun gilt_maturity :: "any_gilt \<Rightarrow> date" where
  "gilt_maturity (Conventional g) = maturity g"
| "gilt_maturity (IndexLinked g) = maturity g"

fun gilt_issue_date :: "any_gilt \<Rightarrow> date" where
  "gilt_issue_date (Conventional g) = issue_date g"
| "gilt_issue_date (IndexLinked g) = issue_date g"

fun base_rpi_nonzero :: "any_gilt \<Rightarrow> bool" where
  "base_rpi_nonzero (Conventional g) = True"
| "base_rpi_nonzero (IndexLinked g) = (base_rpi g \<noteq> 0)"

fun quote_factor :: "(real \<Rightarrow> nat \<Rightarrow> real) \<Rightarrow> any_gilt \<Rightarrow> date \<Rightarrow> error + real" where
  "quote_factor rounding (Conventional g) s = Inr 1"
| "quote_factor rounding (IndexLinked g) s = (if lag g = 3 then index_ratio rounding g s None else Inr 1)"

section \<open>Events of the bond ladder\<close>

datatype EventKind = CASH_FLOW | CONSUMPTION | TAX_YEAR_END | TAX_PAYMENT

text \<open>\<^verbatim>\<open>enum.IntEnum\<close> numbers the members from 1 in the order of the list.\<close>

fun EventKind_value :: "EventKind \<Rightarrow> int" where
  "EventKind_value CASH_FLOW = 1"
| "EventKind_value CONSUMPTION = 2"
| "EventKind_value TAX_YEAR_END = 3"
| "EventKind_value TAX_PAYMENT = 4"

record ('d, 'o) Event =
  date :: date
  description :: 'd
  kind :: EventKind
  operand :: 'o

text \<open>\<^verbatim>\<open>events.sort(key=operator.attrgetter("date", "kind"))\<close>: a stable sort on the pair
  of the date and the kind.\<close>

definition event_key :: "('d, 'o) Event \<Rightarrow> int \<times> int" where
  "event_key ev = (toordinal (date ev), EventKind_value (kind ev))"

definition sort_events :: "('d, 'o) Event list \<Rightarrow> ('d, 'o) Event list" where
  "sort_events events = sort_key event_key events"

section \<open>The formulas of the specification\<close>

text \<open>The accrued fraction in the words of the specification (section 4.C, Accrued interest),
  from the previous and the next coupon date.\<close>

definition spec_accrued_fraction :: "(date \<Rightarrow> date) \<Rightarrow> 'a gilt_scheme \<Rightarrow> date \<Rightarrow> date \<Rightarrow> date \<Rightarrow> real" where
  "spec_accrued_fraction prev_business_day g s prev_coupon next_coupon =
     (let full = real_of_int (days_between next_coupon prev_coupon);
          xd_date = ex_dividend_date prev_business_day next_coupon;
          issue = issue_date g
      in if min_coupon_days \<le> days_between prev_coupon issue then
           real_of_int (days_between s prev_coupon) / full - (if date_lt xd_date s then 1 else 0)
         else if date_le prev_coupon issue then
           (if date_le s xd_date then real_of_int (days_between s issue) / full
            else (real_of_int (days_between s issue) - real_of_int (days_between next_coupon issue)) / full)
         else
           (let prev_prev = shift_month prev_coupon (- 6);
                prev_full = real_of_int (days_between prev_coupon prev_prev)
            in if date_lt s prev_coupon then real_of_int (days_between s issue) / prev_full
               else if date_le s xd_date
               then real_of_int (days_between prev_coupon issue) / prev_full
                    + real_of_int (days_between s prev_coupon) / full
               else real_of_int (days_between s prev_coupon) / full - 1))"



section \<open>Concrete instances\<close>

text \<open>A calendar without bank holidays, for the concrete instances below: the previous
  business day is the previous weekday. \<^verbatim>\<open>date.weekday()\<close> is 0 on a Monday.\<close>

definition prev_day :: "date \<Rightarrow> date" where
  "prev_day d =
     (if 1 < day d then d\<lparr>day := day d - 1\<rparr>
      else (let m0 = month d - 2;
                y = year d + m0 div 12;
                m = m0 mod 12 + 1
            in \<lparr>year = y, month = m, day = days_in_month y m\<rparr>))"

definition weekday :: "date \<Rightarrow> int" where
  "weekday d = (toordinal d + 6) mod 7"

definition prev_weekday :: "date \<Rightarrow> date" where
  "prev_weekday d =
     (let d1 = prev_day d
      in if weekday d1 = 6 then prev_day (prev_day d1)
         else if weekday d1 = 5 then prev_day d1
         else d1)"


definition example_gilt :: gilt where
  "example_gilt = \<lparr>name = ''0 1/4% Treasury Gilt 2025'', isin = ''GB00BLPK7110'', coupon = 1 / 4,
     maturity = \<lparr>year = 2025, month = 1, day = 31\<rparr>,
     issue_date = \<lparr>year = 2023, month = 5, day = 1\<rparr>\<rparr>"

text \<open>A gilt that lives thirty days, less than \<open>min_coupon_days\<close>.\<close>

definition short_lived_gilt :: gilt where
  "short_lived_gilt = \<lparr>name = ''1% Treasury Gilt 2024'', isin = ''GB0000000001'', coupon = 1,
     maturity = \<lparr>year = 2024, month = 1, day = 31\<rparr>,
     issue_date = \<lparr>year = 2024, month = 1, day = 1\<rparr>\<rparr>"

text \<open>An index series of 24 stored months from January 2023, \<open>300, 303, \<dots>\<close>; the months
  after them grow at the given yearly rate, as the spec describes the extrapolation.\<close>

definition example_rpi :: rpi_series where
  "example_rpi = \<lparr>
     lookup_index = (\<lambda>d. (year d - 2023) * 12 + (month d - 1)),
     extrapolate_from_index = (\<lambda>i infl.
       if i \<le> 23 then 300 + 3 * of_int i
       else 369 * (1 + (case infl of None \<Rightarrow> 0 | Some r \<Rightarrow> r)) powr (of_int (i - 23) / 12))\<rparr>"

definition example_linker :: index_linked_gilt where
  "example_linker = \<lparr>name = ''0 1/8% Index-linked Treasury Gilt 2025'', isin = ''GB00B3Y1JG82'',
     coupon = 1 / 8,
     maturity = \<lparr>year = 2025, month = 1, day = 31\<rparr>,
     issue_date = \<lparr>year = 2023, month = 5, day = 1\<rparr>,
     base_rpi = 300, rpi_series = example_rpi\<rparr>"

text \<open>The same gilt issued in 2003, before 22 September 2005: its lag is eight months.\<close>

definition example_old_linker :: index_linked_gilt where
  "example_old_linker = \<lparr>name = ''2 1/2% Index-linked Treasury Stock 2025'', isin = ''GB0008983024'',
     coupon = 5 / 2,
     maturity = \<lparr>year = 2025, month = 1, day = 31\<rparr>,
     issue_date = \<lparr>year = 2003, month = 5, day = 1\<rparr>,
     base_rpi = 300, rpi_series = example_rpi\<rparr>"

text \<open>Four events as a solve collects them: the withdrawal first, then the tax events, then
  the coupon; three of them fall on 31 January 2025.\<close>

definition example_events :: "(string, real) Event list" where
  "example_events =
     [\<lparr>date = \<lparr>year = 2025, month = 1, day = 31\<rparr>, description = ''Withdrawal'',
        kind = CONSUMPTION, operand = 10000\<rparr>,
      \<lparr>date = \<lparr>year = 2024, month = 4, day = 5\<rparr>, description = ''Tax year 2023/24 end'',
        kind = TAX_YEAR_END, operand = 0\<rparr>,
      \<lparr>date = \<lparr>year = 2025, month = 1, day = 31\<rparr>, description = ''Tax for year 2023/24'',
        kind = TAX_PAYMENT, operand = 0\<rparr>,
      \<lparr>date = \<lparr>year = 2025, month = 1, day = 31\<rparr>, description = ''Coupon'',
        kind = CASH_FLOW, operand = 1 / 8\<rparr>]"

section \<open>Facts about the calendar\<close>

lemma div_step:
  fixes y k :: int
  assumes "0 < k"
  shows "(y + 1) div k = y div k + (if (y + 1) mod k = 0 then 1 else 0)"
    and "(y + 1) mod k = (if y mod k = k - 1 then 0 else y mod k + 1)"
proof -
  have r: "0 \<le> y mod k" "y mod k < k" using assms by simp_all
  have e: "y + 1 = k * (y div k) + (y mod k + 1)" by simp
  have "(y + 1) div k = y div k + (if (y + 1) mod k = 0 then 1 else 0)
      \<and> (y + 1) mod k = (if y mod k = k - 1 then 0 else y mod k + 1)"
  proof (cases "y mod k = k - 1")
    case True
    then have "y + 1 = k * (y div k + 1)" using e by (simp add: algebra_simps)
    then have "(y + 1) div k = y div k + 1" "(y + 1) mod k = 0" using assms by simp_all
    then show ?thesis using True by simp
  next
    case False
    then have lt: "y mod k + 1 < k" "0 \<le> y mod k + 1" using r by simp_all
    have "(y + 1) div k = y div k" by (rule int_div_pos_eq [OF e lt(2) lt(1)])
    moreover have "(y + 1) mod k = y mod k + 1" by (rule int_mod_pos_eq [OF e lt(2) lt(1)])
    ultimately show ?thesis using False lt r by simp
  qed
  then show "(y + 1) div k = y div k + (if (y + 1) mod k = 0 then 1 else 0)"
    and "(y + 1) mod k = (if y mod k = k - 1 then 0 else y mod k + 1)" by simp_all
qed

lemma days_before_year_Suc:
  "days_before_year (y + 1) = days_before_year y + 365 + (if is_leap y then 1 else 0)"
proof -
  define A where "A = (y - 1) div 4"
  define B where "B = (y - 1) div 100"
  define C where "C = (y - 1) div 400"
  have a: "y div 4 = A + (if y mod 4 = 0 then 1 else 0)"
    unfolding A_def using div_step(1) [of 4 "y - 1"] by simp
  have b: "y div 100 = B + (if y mod 100 = 0 then 1 else 0)"
    unfolding B_def using div_step(1) [of 100 "y - 1"] by simp
  have c: "y div 400 = C + (if y mod 400 = 0 then 1 else 0)"
    unfolding C_def using div_step(1) [of 400 "y - 1"] by simp
  have "(4::int) dvd 100" "(100::int) dvd 400" by simp_all
  then have d: "y mod 100 = 0 \<Longrightarrow> y mod 4 = 0" and e: "y mod 400 = 0 \<Longrightarrow> y mod 100 = 0"
    by (meson dvd_trans mod_0_imp_dvd dvd_imp_mod_0)+
  have l: "days_before_year (y + 1) = y * 365 + y div 4 - y div 100 + y div 400"
    unfolding days_before_year_def by simp
  have r: "days_before_year y = (y - 1) * 365 + A - B + C"
    unfolding days_before_year_def A_def B_def C_def by simp
  show ?thesis
  proof (cases "y mod 4 = 0")
    case False
    then have "y mod 100 \<noteq> 0 \<and> y mod 400 \<noteq> 0" using d e by auto
    with False show ?thesis unfolding l r a b c is_leap_def by simp
  next
    case y4: True
    show ?thesis
    proof (cases "y mod 100 = 0")
      case False
      then have "y mod 400 \<noteq> 0" using e by auto
      with False y4 show ?thesis unfolding l r a b c is_leap_def by simp
    next
      case y100: True
      show ?thesis
      proof (cases "y mod 400 = 0")
        case False
        with y4 y100 show ?thesis unfolding l r a b c is_leap_def by simp
      next
        case True
        with y4 y100 show ?thesis unfolding l r a b c is_leap_def by simp
      qed
    qed
  qed
qed

lemma days_before_month_step:
  "1 \<le> m \<Longrightarrow> days_before_month y (m + 1) = days_before_month y m + days_in_month y m"
  unfolding days_before_month_def by (simp add: upto_rec2)

lemma days_before_month_1: "days_before_month y 1 = 0"
  unfolding days_before_month_def by simp

lemma days_before_month_12:
  "days_before_month y 12 = 334 + (if is_leap y then 1 else 0)"
  unfolding days_before_month_def by (simp add: upto_rec1 days_in_month_def)

lemma month_len_bounds: "28 \<le> month_len i \<and> month_len i \<le> 31"
  unfolding month_len_def days_in_month_def by simp

lemma month_start_step: "month_start (i + 1) = month_start i + month_len i"
proof (cases "i mod 12 = 11")
  case True
  then have a: "(i + 1) div 12 = i div 12 + 1" and b: "(i + 1) mod 12 = 0"
    using div_step [of 12 i] by simp_all
  show ?thesis
    unfolding month_start_def month_len_def a b
    by (simp add: True days_before_year_Suc days_before_month_1 days_before_month_12 days_in_month_def)
next
  case False
  then have a: "(i + 1) div 12 = i div 12" and b: "(i + 1) mod 12 = i mod 12 + 1"
    using div_step [of 12 i] by simp_all
  have c: "1 \<le> i mod 12 + 1" by simp
  show ?thesis
    unfolding month_start_def month_len_def a b
    using days_before_month_step [OF c, of "i div 12"] by simp
qed

lemma month_start_six: "month_start (i - 6) + 168 \<le> month_start i"
proof -
  have "month_start i = month_start (i - 1) + month_len (i - 1)" using month_start_step [of "i - 1"] by simp
  moreover have "month_start (i - 1) = month_start (i - 2) + month_len (i - 2)" using month_start_step [of "i - 2"] by simp
  moreover have "month_start (i - 2) = month_start (i - 3) + month_len (i - 3)" using month_start_step [of "i - 3"] by simp
  moreover have "month_start (i - 3) = month_start (i - 4) + month_len (i - 4)" using month_start_step [of "i - 4"] by simp
  moreover have "month_start (i - 4) = month_start (i - 5) + month_len (i - 5)" using month_start_step [of "i - 5"] by simp
  moreover have "month_start (i - 5) = month_start (i - 6) + month_len (i - 6)" using month_start_step [of "i - 6"] by simp
  ultimately show ?thesis
    using month_len_bounds [of "i - 1"] month_len_bounds [of "i - 2"] month_len_bounds [of "i - 3"]
      month_len_bounds [of "i - 4"] month_len_bounds [of "i - 5"] month_len_bounds [of "i - 6"]
    by linarith
qed

lemma toordinal_shift_month:
  "toordinal (shift_month d n) =
     month_start (month_index d + n) + min (day d) (month_len (month_index d + n))"
proof -
  have a: "(year d * 12 + (month d - 1) + n) div 12 = year d + (month d - 1 + n) div 12"
    by (simp add: add.assoc)
  have b: "(year d * 12 + (month d - 1) + n) mod 12 = (month d - 1 + n) mod 12"
    by (simp add: add.assoc)
  show ?thesis
    unfolding toordinal_def shift_month_def month_start_def month_len_def month_index_def a b
    by (simp add: Let_def)
qed

lemma toordinal_month_start:
  assumes "1 \<le> month d" "month d \<le> 12"
  shows "toordinal d = month_start (month_index d) + day d"
proof -
  have a: "(year d * 12 + (month d - 1)) div 12 = year d" using assms by simp
  have b: "(year d * 12 + (month d - 1)) mod 12 = month d - 1" using assms by simp
  show ?thesis unfolding toordinal_def month_start_def month_index_def a b by simp
qed

lemma shift_month_six_less:
  "toordinal (shift_month d (n - 6)) + 165 \<le> toordinal (shift_month d n)"
proof -
  have e: "month_index d + (n - 6) = month_index d + n - 6" by simp
  show ?thesis
    using month_start_six [of "month_index d + n"] month_len_bounds [of "month_index d + n"]
      month_len_bounds [of "month_index d + n - 6"]
    unfolding toordinal_shift_month e
    by (simp add: min_def)
qed

lemma shift_month_back_less:
  assumes "1 \<le> month d" "month d \<le> 12"
  shows "toordinal (shift_month d (- 6)) + 168 \<le> toordinal d"
  using month_start_six [of "month_index d"] 
  unfolding toordinal_shift_month toordinal_month_start [OF assms]
  by (simp add: min_def)

lemma shift_month_zero: "valid_date d \<Longrightarrow> shift_month d 0 = d"
  unfolding valid_date_def shift_month_def by (simp add: Let_def)

text \<open>On valid dates the order of the ordinals is the order of the triples.\<close>

lemma month_start_later: "month_start i + month_len i \<le> month_start (i + 1 + int n)"
proof (induction n)
  case 0
  show ?case using month_start_step [of i] by simp
next
  case (Suc n)
  have "month_start (i + 1 + int (Suc n)) = month_start (i + 1 + int n) + month_len (i + 1 + int n)"
    using month_start_step [of "i + 1 + int n"] by (simp add: algebra_simps)
  then show ?case using Suc month_len_bounds [of "i + 1 + int n"] by linarith
qed

lemma toordinal_month_index_less:
  assumes "valid_date a" "valid_date b" "month_index a < month_index b"
  shows "toordinal a < toordinal b"
proof -
  have ma: "1 \<le> month a" "month a \<le> 12" and mb: "1 \<le> month b" "month b \<le> 12"
    using assms(1,2) unfolding valid_date_def by simp_all
  have la: "month_len (month_index a) = days_in_month (year a) (month a)"
    unfolding month_len_def month_index_def using ma by simp
  obtain n where n: "month_index b = month_index a + 1 + int n"
    using assms(3) by (metis add.assoc zless_iff_Suc_zadd of_nat_Suc add.commute)
  have "toordinal a \<le> month_start (month_index a) + month_len (month_index a)"
    unfolding toordinal_month_start [OF ma] la using assms(1) unfolding valid_date_def by simp
  also have "\<dots> \<le> month_start (month_index b)" unfolding n by (rule month_start_later)
  also have "\<dots> < toordinal b"
    unfolding toordinal_month_start [OF mb] using assms(2) unfolding valid_date_def by simp
  finally show ?thesis .
qed

lemma date_order_is_lexicographic:
  assumes "valid_date a" "valid_date b"
  shows "date_lt a b \<longleftrightarrow>
     year a < year b \<or> year a = year b \<and> (month a < month b \<or> month a = month b \<and> day a < day b)"
proof -
  have ma: "1 \<le> month a" "month a \<le> 12" and mb: "1 \<le> month b" "month b \<le> 12"
    using assms unfolding valid_date_def by simp_all
  have lex: "month_index a < month_index b \<longleftrightarrow> year a < year b \<or> year a = year b \<and> month a < month b"
    unfolding month_index_def using ma mb by auto
  have eq: "month_index a = month_index b \<longleftrightarrow> year a = year b \<and> month a = month b"
  proof -
    consider "year a < year b" | "year a = year b" | "year b < year a" by linarith
    then show ?thesis
      unfolding month_index_def using ma mb by cases auto
  qed
  consider "month_index a < month_index b" | "month_index a = month_index b"
    | "month_index b < month_index a" by linarith
  then show ?thesis
  proof cases
    case 1
    then show ?thesis
      using toordinal_month_index_less [OF assms 1] lex unfolding date_lt_def by blast
  next
    case 2
    then show ?thesis
      using eq unfolding date_lt_def toordinal_month_start [OF ma] toordinal_month_start [OF mb]
      by simp
  next
    case 3
    have "toordinal b < toordinal a" by (rule toordinal_month_index_less [OF assms(2,1) 3])
    moreover have "\<not> (year a < year b \<or> year a = year b \<and> month a < month b)"
      "\<not> (year a = year b \<and> month a = month b)"
      using 3 lex eq by auto
    ultimately show ?thesis unfolding date_lt_def by auto
  qed
qed

text \<open>Evaluation of the calendar on concrete dates.\<close>

lemma toordinal_eval:
  "toordinal \<lparr>year = y, month = m, day = d\<rparr> = days_before_year y + days_before_month y m + d"
  unfolding toordinal_def by simp

lemmas calendar_eval = toordinal_eval days_before_year_def days_before_month_def upto_rec1
  days_in_month_def is_leap_def date_le_def date_lt_def days_between_def min_coupon_days_def
  shift_month_def Let_def

section \<open>The coupon loop ends\<close>

lemma shift_month_periods_bound:
  "toordinal (shift_month d (- 6 * int k)) + int k \<le> toordinal (shift_month d 0)"
proof (induction k)
  case 0
  show ?case by simp
next
  case (Suc k)
  have e: "- 6 * int (Suc k) = - 6 * int k - 6" by simp
  show ?case
    using Suc shift_month_six_less [of d "- 6 * int k"] unfolding e by simp
qed

termination coupon_loop
proof (relation "measure (\<lambda>(g, s, acc, prev, p).
    nat (toordinal (shift_month (maturity g) 0) - toordinal s - int p))")
  show "wf (measure (\<lambda>(g, s, acc, prev, p).
    nat (toordinal (shift_month (maturity g) 0) - toordinal s - int p)))" by simp
next
  fix g :: "'a gilt_scheme" and settlement next_coupon_dates prev_coupon_date periods x xa xb
  assume xa: "xa = periods + 1" and xb: "xb = shift_month (maturity g) (- 6 * int xa)"
    and nb: "\<not> date_lt xb settlement"
  have "toordinal settlement \<le> toordinal xb" using nb unfolding date_lt_def by simp
  moreover have "toordinal xb + int xa \<le> toordinal (shift_month (maturity g) 0)"
    unfolding xb by (rule shift_month_periods_bound)
  ultimately show "((g, settlement, x, xb, xa), g, settlement, next_coupon_dates, prev_coupon_date, periods)
       \<in> measure (\<lambda>(g, s, acc, prev, p). nat (toordinal (shift_month (maturity g) 0) - toordinal s - int p))"
    unfolding xa by simp
qed

declare coupon_loop.simps [simp del]

section \<open>The coupon schedule\<close>

lemma coupon_loop_char:
  "prev = candidate g p \<Longrightarrow> coupon_loop g s acc prev p = (prev', acc') \<Longrightarrow>
   \<exists>n\<ge>p. acc' = acc @ map (candidate g) [p..<n] \<and> prev' = candidate g n
     \<and> (\<forall>k. p \<le> k \<and> k < n \<longrightarrow> min_coupon_days \<le> days_between (candidate g k) (issue_date g))
     \<and> (\<forall>k. p < k \<and> k < n \<longrightarrow> \<not> date_lt (candidate g k) s)
     \<and> (p < n \<and> date_lt (candidate g n) s
          \<or> \<not> min_coupon_days \<le> days_between (candidate g n) (issue_date g))"
proof (induction g s acc prev p arbitrary: prev' acc' rule: coupon_loop.induct)
  case (1 g s acc prev p)
  let ?c = "shift_month (maturity g) (- 6 * int (p + 1))"
  have c: "?c = candidate g (Suc p)" unfolding candidate_def by simp
  show ?case
  proof (cases "min_coupon_days \<le> days_between prev (issue_date g)")
    case False
    then have "prev' = prev" "acc' = acc" using "1.prems"(2) by (simp_all add: coupon_loop.simps)
    then show ?thesis using False "1.prems"(1) by (intro exI [of _ p]) auto
  next
    case ge: True
    show ?thesis
    proof (cases "date_lt ?c s")
      case True
      then have "prev' = ?c" "acc' = acc @ [prev]"
        using "1.prems"(2) ge by (simp_all add: coupon_loop.simps Let_def)
      then show ?thesis using True ge "1.prems"(1) c
        by (intro exI [of _ "Suc p"]) (auto simp: less_Suc_eq)
    next
      case False
      then have r: "coupon_loop g s (acc @ [prev]) ?c (p + 1) = (prev', acc')"
        using "1.prems"(2) ge by (simp add: coupon_loop.simps [of g s acc prev p] Let_def)
      have c': "?c = candidate g (p + 1)" using c by simp
      from "1.IH" [OF ge refl refl refl False c' r]
      obtain n where n: "p + 1 \<le> n" "acc' = (acc @ [prev]) @ map (candidate g) [p + 1..<n]"
        "prev' = candidate g n"
        "\<forall>k. p + 1 \<le> k \<and> k < n \<longrightarrow> min_coupon_days \<le> days_between (candidate g k) (issue_date g)"
        "\<forall>k. p + 1 < k \<and> k < n \<longrightarrow> \<not> date_lt (candidate g k) s"
        "p + 1 < n \<and> date_lt (candidate g n) s
          \<or> \<not> min_coupon_days \<le> days_between (candidate g n) (issue_date g)"
        by blast
      have l: "[p..<n] = p # [p + 1..<n]" using n(1) by (simp add: upt_conv_Cons)
      have a: "acc' = acc @ map (candidate g) [p..<n]" unfolding l n(2) using "1.prems"(1) by simp
      have b: "\<forall>k. p \<le> k \<and> k < n \<longrightarrow> min_coupon_days \<le> days_between (candidate g k) (issue_date g)"
      proof (intro allI impI)
        fix k assume "p \<le> k \<and> k < n"
        then consider "k = p" | "p + 1 \<le> k \<and> k < n" by linarith
        then show "min_coupon_days \<le> days_between (candidate g k) (issue_date g)"
          using ge "1.prems"(1) n(4) by cases auto
      qed
      have d: "\<forall>k. p < k \<and> k < n \<longrightarrow> \<not> date_lt (candidate g k) s"
      proof (intro allI impI)
        fix k assume "p < k \<and> k < n"
        then consider "k = p + 1" | "p + 1 < k \<and> k < n" by linarith
        then show "\<not> date_lt (candidate g k) s"
          using False c' n(5) by cases auto
      qed
      have e: "p < n \<and> date_lt (candidate g n) s
          \<or> \<not> min_coupon_days \<le> days_between (candidate g n) (issue_date g)"
        using n(6) n(1) by auto
      show ?thesis using n(1) n(3) a b d e by (intro exI [of _ n]) auto
    qed
  qed
qed

lemma candidate_step:
  assumes "1 \<le> month (maturity g)" "month (maturity g) \<le> 12"
  shows "toordinal (candidate g (Suc k)) + 165 \<le> toordinal (candidate g k)"
proof (cases k)
  case 0
  then show ?thesis
    using shift_month_back_less [OF assms] unfolding candidate_def by simp
next
  case (Suc j)
  have e: "- 6 * int (Suc k) = - 6 * int k - 6" by simp
  show ?thesis
    using shift_month_six_less [of "maturity g" "- 6 * int k"] Suc
    unfolding candidate_def e by simp
qed

lemma candidate_antimono:
  assumes "1 \<le> month (maturity g)" "month (maturity g) \<le> 12"
  shows "j \<le> k \<Longrightarrow> toordinal (candidate g k) \<le> toordinal (candidate g j)"
proof (induction k)
  case 0
  then show ?case by simp
next
  case (Suc k)
  show ?case
  proof (cases "j = Suc k")
    case True
    then show ?thesis by simp
  next
    case False
    then have "j \<le> k" using Suc.prems by simp
    then show ?thesis using Suc.IH candidate_step [OF assms, of k] by linarith
  qed
qed

lemma candidate_strict:
  assumes "1 \<le> month (maturity g)" "month (maturity g) \<le> 12" "j < k"
  shows "toordinal (candidate g k) < toordinal (candidate g j)"
proof -
  have "toordinal (candidate g k) \<le> toordinal (candidate g (Suc j))"
    using candidate_antimono [OF assms(1,2), of "Suc j" k] assms(3) by simp
  then show ?thesis using candidate_step [OF assms(1,2), of j] by linarith
qed

lemma coupon_dates_char:
  assumes "date_le (issue_date g) s" "date_le s (maturity g)"
  shows "\<exists>n. coupon_dates g s = Inr (candidate g n, rev (map (candidate g) [0..<n]))
     \<and> (\<forall>k<n. min_coupon_days \<le> days_between (candidate g k) (issue_date g) \<and> date_le s (candidate g k))
     \<and> (0 < n \<and> date_lt (candidate g n) s
          \<or> \<not> min_coupon_days \<le> days_between (candidate g n) (issue_date g))"
proof -
  obtain prev' acc' where r: "coupon_loop g s [] (maturity g) 0 = (prev', acc')"
    by (cases "coupon_loop g s [] (maturity g) 0") blast
  have c0: "maturity g = candidate g 0" unfolding candidate_def by simp
  from coupon_loop_char [OF c0 r]
  obtain n where n: "acc' = map (candidate g) [0..<n]" "prev' = candidate g n"
    "\<forall>k. 0 \<le> k \<and> k < n \<longrightarrow> min_coupon_days \<le> days_between (candidate g k) (issue_date g)"
    "\<forall>k. 0 < k \<and> k < n \<longrightarrow> \<not> date_lt (candidate g k) s"
    "0 < n \<and> date_lt (candidate g n) s
       \<or> \<not> min_coupon_days \<le> days_between (candidate g n) (issue_date g)"
    by auto
  have cd: "coupon_dates g s = Inr (candidate g n, rev (map (candidate g) [0..<n]))"
    unfolding coupon_dates_def using assms r n(1,2) by simp
  have le: "\<forall>k<n. date_le s (candidate g k)"
  proof (intro allI impI)
    fix k assume "k < n"
    show "date_le s (candidate g k)"
    proof (cases "k = 0")
      case True
      then show ?thesis using assms(2) c0 by simp
    next
      case False
      then show ?thesis using n(4) \<open>k < n\<close> unfolding date_le_def date_lt_def by auto
    qed
  qed
  show ?thesis using cd le n(3) n(5) by (intro exI [of _ n]) auto
qed

lemma coupon_dates_nonempty:
  assumes "date_le (issue_date g) s" "date_le s (maturity g)"
    and "min_coupon_days \<le> days_between (maturity g) (issue_date g)"
  shows "\<exists>n. coupon_dates g s = Inr (candidate g (Suc n), candidate g n # rev (map (candidate g) [0..<n]))
     \<and> (\<forall>k\<le>n. min_coupon_days \<le> days_between (candidate g k) (issue_date g) \<and> date_le s (candidate g k))
     \<and> (date_lt (candidate g (Suc n)) s
          \<or> \<not> min_coupon_days \<le> days_between (candidate g (Suc n)) (issue_date g))"
proof -
  from coupon_dates_char [OF assms(1,2)]
  obtain n where n: "coupon_dates g s = Inr (candidate g n, rev (map (candidate g) [0..<n]))"
    "\<forall>k<n. min_coupon_days \<le> days_between (candidate g k) (issue_date g) \<and> date_le s (candidate g k)"
    "0 < n \<and> date_lt (candidate g n) s
       \<or> \<not> min_coupon_days \<le> days_between (candidate g n) (issue_date g)"
    by blast
  have "n \<noteq> 0"
  proof
    assume "n = 0"
    then show False using n(3) assms(3) unfolding candidate_def by simp
  qed
  then obtain m where m: "n = Suc m" by (cases n) auto
  show ?thesis using n unfolding m by (intro exI [of _ m]) (auto simp: less_Suc_eq_le)
qed

section \<open>Safety of the coupon schedule\<close>

lemma and_then_Inr [simp]: "and_then (Inr x) f = f x"
  unfolding and_then_def by simp

lemma and_then_Inl [simp]: "and_then (Inl e) f = Inl e"
  unfolding and_then_def by simp

lemma true_div_not_IndexError: "true_div a b \<noteq> Inl IndexError"
  unfolding true_div_def by simp

lemma and_then_eq_Inl:
  "and_then r f = Inl e \<longleftrightarrow> r = Inl e \<or> (\<exists>x. r = Inr x \<and> f x = Inl e)"
  unfolding and_then_def by (cases r) auto

lemma and_then_eq_Inr:
  "and_then r f = Inr y \<longleftrightarrow> (\<exists>x. r = Inr x \<and> f x = Inr y)"
  unfolding and_then_def by (cases r) auto

lemma accrued_interest_not_IndexError:
  assumes "prev_next_coupon_date g s = Inr (prev, next)"
  shows "accrued_interest pbd g s \<noteq> Inl IndexError"
  unfolding accrued_interest_def assms
  by (auto simp: Let_def and_then_eq_Inl true_div_def split: period_kind.splits if_splits)

lemma ytm_period_not_IndexError: "ytm_period pbd g s prev next n \<noteq> Inl IndexError"
  unfolding ytm_period_def
  by (auto simp: Let_def and_then_eq_Inl true_div_def split: period_kind.splits if_splits)

lemma py_pow_not_IndexError: "py_pow a b \<noteq> Inl IndexError"
  unfolding py_pow_def by simp

lemma ytm_solve_not_IndexError: "ytm_solve newton g P s x \<noteq> Inl IndexError"
proof -
  obtain a b n d1 d2 where x: "x = (a, b, n, d1, d2)" by (cases x) auto
  show ?thesis
    unfolding x ytm_solve_def
    by (auto simp: Let_def and_then_eq_Inl true_div_not_IndexError py_pow_not_IndexError
        split: option.splits)
qed

lemma ytm_not_IndexError:
  assumes "coupon_dates g s = Inr (prev, next # rest)"
  shows "ytm newton pbd g P s \<noteq> Inl IndexError"
proof -
  have "and_then (ytm_period pbd g s prev next n) (ytm_solve newton g P s) \<noteq> Inl IndexError" for n
  proof (cases "ytm_period pbd g s prev next n")
    case (Inl e)
    then show ?thesis using ytm_period_not_IndexError [of pbd g s prev "next" n] by simp
  next
    case (Inr x)
    then show ?thesis using ytm_solve_not_IndexError [of newton g P s x] by simp
  qed
  then show ?thesis unfolding ytm_def assms by (simp add: Let_def)
qed

text \<open>C10. A gilt that lives at least \<open>min_coupon_days = 60\<close> days has, at every settlement date
  from its issue to its maturity, a non-empty list of next coupon dates: \<open>coupon_dates\<close>
  returns, \<open>prev_next_coupon_date\<close> returns its first element, and neither
  \<open>accrued_interest\<close>, \<open>dirty_price\<close> nor \<open>ytm\<close> raises \<open>IndexError\<close>.\<close>

theorem next_coupon_dates_not_empty:
  assumes "min_coupon_days \<le> days_between (maturity g) (issue_date g)"
    and "date_le (issue_date g) s" and "date_le s (maturity g)"
  shows "(\<exists>prev next rest. coupon_dates g s = Inr (prev, next # rest)
            \<and> prev_next_coupon_date g s = Inr (prev, next))
         \<and> accrued_interest pbd g s \<noteq> Inl IndexError
         \<and> dirty_price pbd g p s \<noteq> Inl IndexError
         \<and> ytm newton pbd g P s \<noteq> Inl IndexError"
proof -
  from coupon_dates_nonempty [OF assms(2,3,1)]
  obtain n where cd: "coupon_dates g s =
      Inr (candidate g (Suc n), candidate g n # rev (map (candidate g) [0..<n]))"
    by blast
  have pn: "prev_next_coupon_date g s = Inr (candidate g (Suc n), candidate g n)"
    unfolding prev_next_coupon_date_def cd by simp
  have a: "accrued_interest pbd g s \<noteq> Inl IndexError"
    by (rule accrued_interest_not_IndexError [OF pn])
  have d: "dirty_price pbd g p s \<noteq> Inl IndexError"
    unfolding dirty_price_def using a by (auto simp: and_then_eq_Inl)
  have y: "ytm newton pbd g P s \<noteq> Inl IndexError"
    by (rule ytm_not_IndexError [OF cd])
  show ?thesis using cd pn a d y by blast
qed

theorem next_coupon_dates_not_empty_witness:
  "min_coupon_days \<le> days_between (maturity example_gilt) (issue_date example_gilt)
   \<and> date_le (issue_date example_gilt) \<lparr>year = 2023, month = 12, day = 1\<rparr>
   \<and> date_le \<lparr>year = 2023, month = 12, day = 1\<rparr> (maturity example_gilt)
   \<and> (\<exists>prev next rest. coupon_dates example_gilt \<lparr>year = 2023, month = 12, day = 1\<rparr> = Inr (prev, next # rest)
            \<and> prev_next_coupon_date example_gilt \<lparr>year = 2023, month = 12, day = 1\<rparr> = Inr (prev, next))
   \<and> accrued_interest prev_weekday example_gilt \<lparr>year = 2023, month = 12, day = 1\<rparr> \<noteq> Inl IndexError
   \<and> dirty_price prev_weekday example_gilt 95 \<lparr>year = 2023, month = 12, day = 1\<rparr> \<noteq> Inl IndexError
   \<and> ytm (\<lambda>fn v0. None) prev_weekday example_gilt 95 \<lparr>year = 2023, month = 12, day = 1\<rparr> \<noteq> Inl IndexError"
proof -
  have h1: "min_coupon_days \<le> days_between (maturity example_gilt) (issue_date example_gilt)"
    by (simp add: example_gilt_def calendar_eval)
  have h2: "date_le (issue_date example_gilt) \<lparr>year = 2023, month = 12, day = 1\<rparr>"
    by (simp add: example_gilt_def calendar_eval)
  have h3: "date_le \<lparr>year = 2023, month = 12, day = 1\<rparr> (maturity example_gilt)"
    by (simp add: example_gilt_def calendar_eval)
  show ?thesis
    using next_coupon_dates_not_empty [OF h1 h2 h3, of prev_weekday 95 "\<lambda>fn v0. None" 95] h1 h2 h3
    by blast
qed

text \<open>C2, as the code has it. For a settlement date from the issue to the maturity,
  \<open>coupon_dates\<close> returns the pair of \<open>candidate g n\<close> and the candidates before it in
  ascending order of date, for some \<open>n\<close>. The list holds exactly the candidates that are on or
  after the settlement date (not only those strictly after it) and at least
  \<open>min_coupon_days\<close> after the issue date; it is strictly ascending. The previous coupon date
  \<open>candidate g n\<close> is strictly before the settlement date or less than \<open>min_coupon_days\<close>
  after the issue date, and it is the latest candidate of that kind.\<close>

theorem coupon_dates_schedule:
  assumes "valid_date (maturity g)"
    and "date_le (issue_date g) s" and "date_le s (maturity g)"
  shows "\<exists>n. coupon_dates g s = Inr (candidate g n, rev (map (candidate g) [0..<n]))
     \<and> set (rev (map (candidate g) [0..<n])) =
         {candidate g k | k. date_le s (candidate g k)
            \<and> min_coupon_days \<le> days_between (candidate g k) (issue_date g)}
     \<and> sorted_wrt date_lt (rev (map (candidate g) [0..<n]))
     \<and> (date_lt (candidate g n) s \<or> days_between (candidate g n) (issue_date g) < min_coupon_days)
     \<and> (\<forall>k. date_lt (candidate g k) s \<or> days_between (candidate g k) (issue_date g) < min_coupon_days
            \<longrightarrow> date_le (candidate g k) (candidate g n))"
proof -
  have m: "1 \<le> month (maturity g)" "month (maturity g) \<le> 12"
    using assms(1) unfolding valid_date_def by simp_all
  from coupon_dates_char [OF assms(2,3)]
  obtain n where cd: "coupon_dates g s = Inr (candidate g n, rev (map (candidate g) [0..<n]))"
    and inl: "\<forall>k<n. min_coupon_days \<le> days_between (candidate g k) (issue_date g)
                \<and> date_le s (candidate g k)"
    and stop: "0 < n \<and> date_lt (candidate g n) s
       \<or> \<not> min_coupon_days \<le> days_between (candidate g n) (issue_date g)"
    by blast
  have stop': "date_lt (candidate g n) s \<or> days_between (candidate g n) (issue_date g) < min_coupon_days"
    using stop by auto
  have later: "k < n" if k: "date_le s (candidate g k)"
      "min_coupon_days \<le> days_between (candidate g k) (issue_date g)" for k
  proof (rule ccontr)
    assume "\<not> k < n"
    then have "toordinal (candidate g k) \<le> toordinal (candidate g n)"
      using candidate_antimono [OF m, of n k] by simp
    then show False using stop' k unfolding date_le_def date_lt_def days_between_def by linarith
  qed
  have st: "set (rev (map (candidate g) [0..<n])) =
         {candidate g k | k. date_le s (candidate g k)
            \<and> min_coupon_days \<le> days_between (candidate g k) (issue_date g)}"
  proof (intro set_eqI iffI)
    fix d assume "d \<in> set (rev (map (candidate g) [0..<n]))"
    then obtain k where "k < n" "d = candidate g k" by auto
    then show "d \<in> {candidate g k | k. date_le s (candidate g k)
            \<and> min_coupon_days \<le> days_between (candidate g k) (issue_date g)}"
      using inl by blast
  next
    fix d assume "d \<in> {candidate g k | k. date_le s (candidate g k)
            \<and> min_coupon_days \<le> days_between (candidate g k) (issue_date g)}"
    then obtain k where k: "d = candidate g k" "date_le s (candidate g k)"
        "min_coupon_days \<le> days_between (candidate g k) (issue_date g)" by blast
    then have "k < n" using later by blast
    then show "d \<in> set (rev (map (candidate g) [0..<n]))" using k(1) by auto
  qed
  have "sorted_wrt (\<lambda>a b. date_lt b a) (map (candidate g) [0..<n])"
    unfolding sorted_wrt_map
    by (rule sorted_wrt_mono_rel [of _ "(<)"])
       (auto simp: date_lt_def intro: candidate_strict [OF m])
  then have so: "sorted_wrt date_lt (rev (map (candidate g) [0..<n]))"
    unfolding sorted_wrt_rev .
  have la: "\<forall>k. date_lt (candidate g k) s \<or> days_between (candidate g k) (issue_date g) < min_coupon_days
            \<longrightarrow> date_le (candidate g k) (candidate g n)"
  proof (intro allI impI)
    fix k
    assume a: "date_lt (candidate g k) s \<or> days_between (candidate g k) (issue_date g) < min_coupon_days"
    have "\<not> k < n"
    proof
      assume "k < n"
      then show False using inl a unfolding date_le_def date_lt_def by force
    qed
    then show "date_le (candidate g k) (candidate g n)"
      using candidate_antimono [OF m, of n k] unfolding date_le_def by simp
  qed
  show ?thesis using cd st so stop' la by blast
qed

lemma example_coupon_dates:
  "coupon_dates example_gilt \<lparr>year = 2023, month = 12, day = 1\<rparr> =
     Inr (\<lparr>year = 2023, month = 7, day = 31\<rparr>,
          [\<lparr>year = 2024, month = 1, day = 31\<rparr>, \<lparr>year = 2024, month = 7, day = 31\<rparr>,
           \<lparr>year = 2025, month = 1, day = 31\<rparr>])"
  by (simp add: coupon_dates_def example_gilt_def coupon_loop.simps calendar_eval)

theorem coupon_dates_schedule_witness:
  "valid_date (maturity example_gilt)
   \<and> date_le (issue_date example_gilt) \<lparr>year = 2023, month = 12, day = 1\<rparr>
   \<and> date_le \<lparr>year = 2023, month = 12, day = 1\<rparr> (maturity example_gilt)
   \<and> (\<exists>n. coupon_dates example_gilt \<lparr>year = 2023, month = 12, day = 1\<rparr>
          = Inr (candidate example_gilt n, rev (map (candidate example_gilt) [0..<n]))
     \<and> set (rev (map (candidate example_gilt) [0..<n])) =
         {candidate example_gilt k | k. date_le \<lparr>year = 2023, month = 12, day = 1\<rparr> (candidate example_gilt k)
            \<and> min_coupon_days \<le> days_between (candidate example_gilt k) (issue_date example_gilt)}
     \<and> sorted_wrt date_lt (rev (map (candidate example_gilt) [0..<n]))
     \<and> (date_lt (candidate example_gilt n) \<lparr>year = 2023, month = 12, day = 1\<rparr>
          \<or> days_between (candidate example_gilt n) (issue_date example_gilt) < min_coupon_days)
     \<and> (\<forall>k. date_lt (candidate example_gilt k) \<lparr>year = 2023, month = 12, day = 1\<rparr>
              \<or> days_between (candidate example_gilt k) (issue_date example_gilt) < min_coupon_days
            \<longrightarrow> date_le (candidate example_gilt k) (candidate example_gilt n)))
   \<and> coupon_dates example_gilt \<lparr>year = 2023, month = 12, day = 1\<rparr> =
     Inr (\<lparr>year = 2023, month = 7, day = 31\<rparr>,
          [\<lparr>year = 2024, month = 1, day = 31\<rparr>, \<lparr>year = 2024, month = 7, day = 31\<rparr>,
           \<lparr>year = 2025, month = 1, day = 31\<rparr>])"
proof -
  have h1: "valid_date (maturity example_gilt)"
    by (simp add: example_gilt_def valid_date_def days_in_month_def)
  have h2: "date_le (issue_date example_gilt) \<lparr>year = 2023, month = 12, day = 1\<rparr>"
    by (simp add: example_gilt_def calendar_eval)
  have h3: "date_le \<lparr>year = 2023, month = 12, day = 1\<rparr> (maturity example_gilt)"
    by (simp add: example_gilt_def calendar_eval)
  show ?thesis
    using coupon_dates_schedule [OF h1 h2 h3] h1 h2 h3 example_coupon_dates by blast
qed

text \<open>C2 as stated fails when the settlement date is a coupon date. Settling the example gilt
  at its maturity, 31 January 2025, the returned list holds the maturity, which is not
  strictly after the settlement date, and the returned previous coupon date is 31 July 2024
  although the candidate 31 January 2025 is not after the settlement date.\<close>

theorem coupon_dates_on_coupon_date_counterexample:
  "coupon_dates example_gilt \<lparr>year = 2025, month = 1, day = 31\<rparr> =
     Inr (\<lparr>year = 2024, month = 7, day = 31\<rparr>, [\<lparr>year = 2025, month = 1, day = 31\<rparr>])
   \<and> \<not> date_lt \<lparr>year = 2025, month = 1, day = 31\<rparr> \<lparr>year = 2025, month = 1, day = 31\<rparr>
   \<and> candidate example_gilt 0 = \<lparr>year = 2025, month = 1, day = 31\<rparr>
   \<and> date_lt \<lparr>year = 2024, month = 7, day = 31\<rparr> (candidate example_gilt 0)"
  by (simp add: coupon_dates_def example_gilt_def coupon_loop.simps candidate_def calendar_eval)

section \<open>Accrued interest\<close>

lemma shift_month_month: "1 \<le> month (shift_month d n) \<and> month (shift_month d n) \<le> 12"
  unfolding shift_month_def by (simp add: Let_def)

lemma candidate_Suc_back:
  "toordinal (shift_month (candidate g (Suc n)) (- 6)) < toordinal (candidate g (Suc n))"
proof -
  have c: "candidate g (Suc n) = shift_month (maturity g) (- 6 * int (Suc n))"
    unfolding candidate_def by simp
  show ?thesis
    unfolding c
    using shift_month_back_less [of "shift_month (maturity g) (- 6 * int (Suc n))"]
      shift_month_month [of "maturity g" "- 6 * int (Suc n)"]
    by linarith
qed

lemma true_div_Inr: "b \<noteq> 0 \<Longrightarrow> true_div a b = Inr (a / b)"
  unfolding true_div_def by simp

lemma accrued_interest_eq:
  assumes "valid_date (maturity g)"
    and "min_coupon_days \<le> days_between (maturity g) (issue_date g)"
    and "date_le (issue_date g) s" and "date_le s (maturity g)"
  shows "\<exists>prev next. prev_next_coupon_date g s = Inr (prev, next)
     \<and> days_between next prev \<noteq> 0
     \<and> days_between prev (shift_month prev (- 6)) \<noteq> 0
     \<and> accrued_interest pbd g s = Inr (spec_accrued_fraction pbd g s prev next * (coupon g / 2))"
proof -
  have m: "1 \<le> month (maturity g)" "month (maturity g) \<le> 12"
    using assms(1) unfolding valid_date_def by simp_all
  from coupon_dates_nonempty [OF assms(3,4,2)]
  obtain n where cd: "coupon_dates g s =
      Inr (candidate g (Suc n), candidate g n # rev (map (candidate g) [0..<n]))"
    by blast
  let ?prev = "candidate g (Suc n)" and ?next = "candidate g n"
  have pn: "prev_next_coupon_date g s = Inr (?prev, ?next)"
    unfolding prev_next_coupon_date_def cd by simp
  have full: "days_between ?next ?prev \<noteq> 0"
    using candidate_step [OF m, of n] unfolding days_between_def by linarith
  have pfull: "days_between ?prev (shift_month ?prev (- 6)) \<noteq> 0"
    using candidate_Suc_back [of g n] unfolding days_between_def by linarith
  have f: "real_of_int (days_between ?next ?prev) \<noteq> 0" using full by simp
  have pf: "real_of_int (days_between ?prev (shift_month ?prev (- 6))) \<noteq> 0" using pfull by simp
  have "accrued_interest pbd g s = Inr (spec_accrued_fraction pbd g s ?prev ?next * (coupon g / 2))"
  proof (cases "period g ?prev")
    case STANDARD
    then have p: "min_coupon_days \<le> days_between ?prev (issue_date g)"
      unfolding period_def by (simp split: if_splits)
    show ?thesis
      unfolding accrued_interest_def pn spec_accrued_fraction_def
      using p by (simp add: STANDARD Let_def true_div_Inr [OF f])
  next
    case SHORT
    then have p: "\<not> min_coupon_days \<le> days_between ?prev (issue_date g)"
        "date_le ?prev (issue_date g)"
      unfolding period_def by (simp_all split: if_splits)
    show ?thesis
      unfolding accrued_interest_def pn spec_accrued_fraction_def
      using p by (simp add: SHORT Let_def true_div_Inr [OF f])
  next
    case LONG
    then have p: "\<not> min_coupon_days \<le> days_between ?prev (issue_date g)"
        "\<not> date_le ?prev (issue_date g)"
      unfolding period_def by (simp_all split: if_splits)
    show ?thesis
      unfolding accrued_interest_def pn spec_accrued_fraction_def
      using p by (simp add: LONG Let_def true_div_Inr [OF f] true_div_Inr [OF pf])
  qed
  then show ?thesis using pn full pfull by blast
qed

lemma example_xd:
  "ex_dividend_date prev_weekday \<lparr>year = 2024, month = 1, day = 31\<rparr> = \<lparr>year = 2024, month = 1, day = 22\<rparr>"
  by code_simp

lemma example_prev_next:
  "prev_next_coupon_date example_gilt \<lparr>year = 2023, month = 12, day = 1\<rparr> =
     Inr (\<lparr>year = 2023, month = 7, day = 31\<rparr>, \<lparr>year = 2024, month = 1, day = 31\<rparr>)"
  unfolding prev_next_coupon_date_def example_coupon_dates by simp

lemma example_valid: "valid_date (maturity example_gilt)"
  by (simp add: example_gilt_def valid_date_def days_in_month_def)

lemma example_life: "min_coupon_days \<le> days_between (maturity example_gilt) (issue_date example_gilt)"
  by (simp add: example_gilt_def calendar_eval)

lemma example_settlement:
  "date_le (issue_date example_gilt) \<lparr>year = 2023, month = 12, day = 1\<rparr>"
  "date_le \<lparr>year = 2023, month = 12, day = 1\<rparr> (maturity example_gilt)"
  by (simp_all add: example_gilt_def calendar_eval)

lemma short_lived_coupon_dates:
  "coupon_dates short_lived_gilt \<lparr>year = 2024, month = 1, day = 15\<rparr>
     = Inr (\<lparr>year = 2024, month = 1, day = 31\<rparr>, [])"
  by (simp add: coupon_dates_def short_lived_gilt_def coupon_loop.simps calendar_eval)

lemma short_lived_settlement:
  "date_le (issue_date short_lived_gilt) \<lparr>year = 2024, month = 1, day = 15\<rparr>"
  "date_le \<lparr>year = 2024, month = 1, day = 15\<rparr> (maturity short_lived_gilt)"
  by (simp_all add: short_lived_gilt_def calendar_eval)

section \<open>Cash flows\<close>

lemma sum_constant_flows: "sum_list (map (snd \<circ> (\<lambda>d. (d, c))) ds) = c * real (length ds)"
  by (induction ds) (simp_all add: algebra_simps)

text \<open>C6, as the code has it. For a conventional gilt with a coupon that is not negative, that
  lives at least \<open>min_coupon_days = 60\<close> days, and a settlement date from its issue to its
  maturity that is not after the ex-dividend date of the maturity, \<open>cash_flows\<close> returns a
  list whose last element is the redemption of 100 at the maturity and whose amounts sum to
  at least 100.\<close>

theorem cash_flows_sum_at_least_par:
  assumes "valid_date (maturity g)"
    and "min_coupon_days \<le> days_between (maturity g) (issue_date g)"
    and "date_le (issue_date g) s" and "date_le s (maturity g)"
    and "0 \<le> coupon g"
    and "\<not> date_lt (ex_dividend_date pbd (maturity g)) s"
  shows "\<exists>flows. cash_flows pbd g s = Inr flows \<and> flows \<noteq> [] \<and> last flows = (maturity g, 100)
     \<and> 100 \<le> sum_list (map snd flows)"
proof -
  have m: "1 \<le> month (maturity g)" "month (maturity g) \<le> 12"
    using assms(1) unfolding valid_date_def by simp_all
  from coupon_dates_nonempty [OF assms(3,4,2)]
  obtain n where cd: "coupon_dates g s =
      Inr (candidate g (Suc n), candidate g n # rev (map (candidate g) [0..<n]))"
    and inl: "\<forall>k\<le>n. min_coupon_days \<le> days_between (candidate g k) (issue_date g)
        \<and> date_le s (candidate g k)"
    by blast
  let ?prev = "candidate g (Suc n)" and ?next = "candidate g n"
  let ?rest = "rev (map (candidate g) [0..<n])"
  let ?first = "if date_lt (ex_dividend_date pbd ?next) s then Inr ([], ?rest)
     else (case period g ?prev of
         STANDARD \<Rightarrow> Inr ([], ?next # ?rest)
       | SHORT \<Rightarrow>
           and_then (true_div (of_int (days_between ?next (issue_date g)))
                              (of_int (days_between ?next ?prev))) (\<lambda>r.
             Inr ([(?next, r * coupon g / 2)], ?rest))
       | LONG \<Rightarrow>
           (let prev_prev_coupon_date = shift_month ?prev (- 6)
            in and_then (true_div (of_int (days_between ?prev (issue_date g)))
                           (of_int (days_between ?prev prev_prev_coupon_date))) (\<lambda>q.
                 Inr ([(?next, (q + 1) * coupon g / 2)], ?rest))))"
  have full: "0 < days_between ?next ?prev"
    using candidate_step [OF m, of n] unfolding days_between_def by linarith
  have pfull: "0 < days_between ?prev (shift_month ?prev (- 6))"
    using candidate_Suc_back [of g n] unfolding days_between_def by linarith
  have ni: "0 \<le> days_between ?next (issue_date g)"
    using inl unfolding min_coupon_days_def by force
  have "\<exists>tr rem. ?first = Inr (tr, rem) \<and> 0 \<le> sum_list (map snd tr)"
  proof (cases "date_lt (ex_dividend_date pbd ?next) s")
    case True
    then show ?thesis by simp
  next
    case xd: False
    show ?thesis
    proof (cases "period g ?prev")
      case STANDARD
      then show ?thesis using xd by simp
    next
      case SHORT
      define q where "q = real_of_int (days_between ?next (issue_date g)) / real_of_int (days_between ?next ?prev)"
      have "0 \<le> q" unfolding q_def using ni full by simp
      then have "0 \<le> q * coupon g" using assms(5) by (rule mult_nonneg_nonneg)
      then have "0 \<le> q * coupon g / 2" by simp
      then have "0 \<le> real_of_int (days_between ?next (issue_date g)) / real_of_int (days_between ?next ?prev)
            * coupon g / 2"
        unfolding q_def .
      then show ?thesis using xd SHORT full by (simp add: true_div_def)
    next
      case LONG
      then have "\<not> date_le ?prev (issue_date g)" unfolding period_def by (simp split: if_splits)
      then have "0 \<le> days_between ?prev (issue_date g)"
        unfolding date_le_def days_between_def by simp
      then have "0 \<le> real_of_int (days_between ?prev (issue_date g))
          / real_of_int (days_between ?prev (shift_month ?prev (- 6)))"
        using pfull by simp
      then have "0 \<le> real_of_int (days_between ?prev (issue_date g))
          / real_of_int (days_between ?prev (shift_month ?prev (- 6))) + 1"
        by simp
      then have "0 \<le> (real_of_int (days_between ?prev (issue_date g))
          / real_of_int (days_between ?prev (shift_month ?prev (- 6))) + 1) * coupon g"
        using assms(5) by (rule mult_nonneg_nonneg)
      then have "0 \<le> (real_of_int (days_between ?prev (issue_date g))
          / real_of_int (days_between ?prev (shift_month ?prev (- 6))) + 1) * coupon g / 2"
        by simp
      then show ?thesis using xd LONG pfull by (simp add: true_div_def Let_def)
    qed
  qed
  then obtain tr rem where f: "?first = Inr (tr, rem)" and tr: "0 \<le> sum_list (map snd tr)" by blast
  let ?flows = "tr @ map (\<lambda>d. (d, coupon g / 2)) rem @ [(maturity g, 100)]"
  have cf: "cash_flows pbd g s = Inr ?flows"
    unfolding cash_flows_def cd using assms(6) by (simp add: f)
  have "sum_list (map snd ?flows) = sum_list (map snd tr) + coupon g / 2 * real (length rem) + 100"
    by (simp add: sum_constant_flows)
  moreover have "0 \<le> coupon g / 2 * real (length rem)" using assms(5) by simp
  ultimately have "100 \<le> sum_list (map snd ?flows)" using tr by linarith
  then show ?thesis using cf by (intro exI [of _ ?flows]) simp
qed

lemma example_maturity_xd:
  "ex_dividend_date prev_weekday \<lparr>year = 2025, month = 1, day = 31\<rparr> = \<lparr>year = 2025, month = 1, day = 22\<rparr>"
  by code_simp

lemma example_not_after_xd:
  "\<not> date_lt (ex_dividend_date prev_weekday (maturity example_gilt)) \<lparr>year = 2023, month = 12, day = 1\<rparr>"
proof -
  have "maturity example_gilt = \<lparr>year = 2025, month = 1, day = 31\<rparr>" by (simp add: example_gilt_def)
  then show ?thesis unfolding example_maturity_xd by (simp add: example_maturity_xd calendar_eval)
qed

theorem cash_flows_sum_at_least_par_witness:
  "valid_date (maturity example_gilt)
   \<and> min_coupon_days \<le> days_between (maturity example_gilt) (issue_date example_gilt)
   \<and> date_le (issue_date example_gilt) \<lparr>year = 2023, month = 12, day = 1\<rparr>
   \<and> date_le \<lparr>year = 2023, month = 12, day = 1\<rparr> (maturity example_gilt)
   \<and> 0 \<le> coupon example_gilt
   \<and> \<not> date_lt (ex_dividend_date prev_weekday (maturity example_gilt)) \<lparr>year = 2023, month = 12, day = 1\<rparr>
   \<and> (\<exists>flows. cash_flows prev_weekday example_gilt \<lparr>year = 2023, month = 12, day = 1\<rparr> = Inr flows
         \<and> flows \<noteq> [] \<and> last flows = (maturity example_gilt, 100)
         \<and> 100 \<le> sum_list (map snd flows))"
proof -
  have c: "0 \<le> coupon example_gilt" by (simp add: example_gilt_def)
  show ?thesis
    using cash_flows_sum_at_least_par [OF example_valid example_life example_settlement c example_not_after_xd]
      example_valid example_life example_settlement c example_not_after_xd
    by blast
qed

text \<open>C6 as stated fails for a gilt that lives less than \<open>min_coupon_days\<close>: settled before
  the ex-dividend date of its maturity, \<open>cash_flows\<close> raises \<open>IndexError\<close>.\<close>

theorem cash_flows_short_lived_counterexample:
  "0 \<le> coupon short_lived_gilt
   \<and> date_le (issue_date short_lived_gilt) \<lparr>year = 2024, month = 1, day = 15\<rparr>
   \<and> date_le \<lparr>year = 2024, month = 1, day = 15\<rparr> (maturity short_lived_gilt)
   \<and> \<not> date_lt (ex_dividend_date prev_weekday (maturity short_lived_gilt)) \<lparr>year = 2024, month = 1, day = 15\<rparr>
   \<and> cash_flows prev_weekday short_lived_gilt \<lparr>year = 2024, month = 1, day = 15\<rparr> = Inl IndexError"
proof -
  have mt: "maturity short_lived_gilt = \<lparr>year = 2024, month = 1, day = 31\<rparr>"
    by (simp add: short_lived_gilt_def)
  have xd: "\<not> date_lt (ex_dividend_date prev_weekday (maturity short_lived_gilt)) \<lparr>year = 2024, month = 1, day = 15\<rparr>"
    unfolding mt example_xd by (simp add: calendar_eval)
  have "cash_flows prev_weekday short_lived_gilt \<lparr>year = 2024, month = 1, day = 15\<rparr> = Inl IndexError"
    unfolding cash_flows_def short_lived_coupon_dates using xd by simp
  moreover have "0 \<le> coupon short_lived_gilt" by (simp add: short_lived_gilt_def)
  ultimately show ?thesis using short_lived_settlement xd by simp
qed

section \<open>The index ratio\<close>

lemma accrued_interest_returns:
  assumes "valid_date (maturity g)"
    and "min_coupon_days \<le> days_between (maturity g) (issue_date g)"
    and "date_le (issue_date g) s" and "date_le s (maturity g)"
  shows "\<exists>a. accrued_interest pbd g s = Inr a"
  using accrued_interest_eq [OF assms, of pbd] by blast

lemma prev_next_coupon_date_returns:
  assumes "min_coupon_days \<le> days_between (maturity g) (issue_date g)"
    and "date_le (issue_date g) s" and "date_le s (maturity g)"
  shows "\<exists>prev next. prev_next_coupon_date g s = Inr (prev, next)"
proof -
  from coupon_dates_nonempty [OF assms(2,3,1)]
  obtain n where cd: "coupon_dates g s =
      Inr (candidate g (Suc n), candidate g n # rev (map (candidate g) [0..<n]))"
    by blast
  show ?thesis unfolding prev_next_coupon_date_def cd by simp
qed

lemma lag_cases: "lag g = 3 \<or> lag g = 8"
  unfolding lag_def by simp

lemma days_in_month_pos: "28 \<le> days_in_month y m"
  unfolding days_in_month_def by simp

lemma ref_rpi_returns:
  assumes "valid_date s"
    and "min_coupon_days \<le> days_between (maturity g) (issue_date g)"
    and "date_le (issue_date g) s" and "date_le s (maturity g)"
  shows "\<exists>r. ref_rpi rounding g s infl = Inr r"
proof (cases "lag g = 3")
  case True
  have d: "real_of_int (days_in_month (year s) (month s)) \<noteq> 0"
    using days_in_month_pos [of "year s" "month s"] by simp
  have p: "0 < real_of_int (days_in_month (year s) (month s))"
    using days_in_month_pos [of "year s" "month s"] by simp
  have w0: "0 \<le> real_of_int (day s - 1) / real_of_int (days_in_month (year s) (month s))"
    using assms(1) p unfolding valid_date_def by simp
  have "real_of_int (day s - 1) < real_of_int (days_in_month (year s) (month s))"
    using assms(1) unfolding valid_date_def by simp
  then have w1: "real_of_int (day s - 1) / real_of_int (days_in_month (year s) (month s)) < 1"
    using p by simp
  show ?thesis
    unfolding ref_rpi_def using True w0 w1 by (simp add: Let_def true_div_Inr [OF d])
next
  case False
  then have l: "lag g = 8" using lag_cases [of g] by simp
  from prev_next_coupon_date_returns [OF assms(2,3,4)]
  obtain prev "next" where pn: "prev_next_coupon_date g s = Inr (prev, next)" by blast
  show ?thesis unfolding ref_rpi_def pn using l by (simp add: Let_def)
qed

lemma index_ratio_returns:
  assumes "valid_date s"
    and "min_coupon_days \<le> days_between (maturity g) (issue_date g)"
    and "date_le (issue_date g) s" and "date_le s (maturity g)"
    and "base_rpi g \<noteq> 0"
  shows "\<exists>ir. index_ratio rounding g s infl = Inr ir"
proof -
  from ref_rpi_returns [OF assms(1-4)]
  obtain r where r: "ref_rpi rounding g s (Some (case infl of None \<Rightarrow> inflation_rate | Some r \<Rightarrow> r)) = Inr r"
    by blast
  show ?thesis unfolding index_ratio_def by (simp add: Let_def r true_div_Inr [OF assms(5)])
qed

lemma ref_rpi_rounded:
  assumes "ref_rpi rounding g d infl = Inr ref"
  shows "\<exists>x. ref = rounding x 5"
  using assms unfolding ref_rpi_def by (auto simp: and_then_eq_Inr)

text \<open>C9. \<open>index_ratio\<close> at a date is the reference index at that date divided by the base
  index, and the quotient is rounded to 5 decimal places when the lag is three months and
  returned as it is when the lag is eight months; the lag is one of the two. The reference
  index is itself a value rounded to 5 decimal places, so with a lag of three months the
  rounding is the second one. Where the reference index raises, \<open>index_ratio\<close> raises the
  same error, and a base index of zero raises \<open>ZeroDivisionError\<close>. The rounding is any
  function of the value and the number of places.\<close>

theorem index_ratio_rounding:
  "(case ref_rpi rounding g d (Some (case infl of None \<Rightarrow> inflation_rate | Some r \<Rightarrow> r)) of
      Inl e \<Rightarrow> index_ratio rounding g d infl = Inl e
    | Inr ref \<Rightarrow>
        (\<exists>x. ref = rounding x 5)
        \<and> index_ratio rounding g d infl =
            (if base_rpi g = 0 then Inl ZeroDivisionError
             else if lag g = 3 then Inr (rounding (ref / base_rpi g) 5)
             else Inr (ref / base_rpi g)))
   \<and> (lag g = 3 \<or> lag g = 8)"
proof (cases "ref_rpi rounding g d (Some (case infl of None \<Rightarrow> inflation_rate | Some r \<Rightarrow> r))")
  case (Inl e)
  then show ?thesis using lag_cases [of g] unfolding index_ratio_def by (simp add: Let_def)
next
  case (Inr ref)
  have "index_ratio rounding g d infl =
      (if base_rpi g = 0 then Inl ZeroDivisionError
       else if lag g = 3 then Inr (rounding (ref / base_rpi g) 5)
       else Inr (ref / base_rpi g))"
    unfolding index_ratio_def by (simp add: Let_def Inr true_div_def)
  then show ?thesis using ref_rpi_rounded [OF Inr] lag_cases [of g] by (simp add: Inr)
qed

section \<open>Accrued interest of the two classes\<close>

lemma linker_coupon_dates:
  "coupon_dates example_linker \<lparr>year = 2023, month = 12, day = 1\<rparr> =
     Inr (\<lparr>year = 2023, month = 7, day = 31\<rparr>,
          [\<lparr>year = 2024, month = 1, day = 31\<rparr>, \<lparr>year = 2024, month = 7, day = 31\<rparr>,
           \<lparr>year = 2025, month = 1, day = 31\<rparr>])"
  by (simp add: coupon_dates_def example_linker_def coupon_loop.simps calendar_eval)

lemma linker_prev_next:
  "prev_next_coupon_date example_linker \<lparr>year = 2023, month = 12, day = 1\<rparr> =
     Inr (\<lparr>year = 2023, month = 7, day = 31\<rparr>, \<lparr>year = 2024, month = 1, day = 31\<rparr>)"
  unfolding prev_next_coupon_date_def linker_coupon_dates by simp

lemma linker_index_ratio:
  "index_ratio py_round example_linker \<lparr>year = 2023, month = 12, day = 1\<rparr> None = Inr (27 / 25)"
  by (simp add: index_ratio_def ref_rpi_def lag_def example_linker_def example_rpi_def py_round_def
     round_half_even_def true_div_def inflation_rate_def calendar_eval)

lemma linker_lag: "lag example_linker = 3"
  by (simp add: lag_def example_linker_def calendar_eval)

lemma linker_accrued_interest:
  "accrued_interest prev_weekday example_linker \<lparr>year = 2023, month = 12, day = 1\<rparr> = Inr (123 / 2944)"
  unfolding accrued_interest_def prev_next_coupon_date_def linker_coupon_dates
  by (simp add: example_xd period_def true_div_def example_linker_def calendar_eval)

lemma linker_domain:
  "valid_date (gilt_maturity (IndexLinked example_linker))"
  "valid_date \<lparr>year = 2023, month = 12, day = 1\<rparr>"
  "min_coupon_days \<le> days_between (gilt_maturity (IndexLinked example_linker))
      (gilt_issue_date (IndexLinked example_linker))"
  "date_le (gilt_issue_date (IndexLinked example_linker)) \<lparr>year = 2023, month = 12, day = 1\<rparr>"
  "date_le \<lparr>year = 2023, month = 12, day = 1\<rparr> (gilt_maturity (IndexLinked example_linker))"
  "base_rpi_nonzero (IndexLinked example_linker)"
  by (simp_all add: example_linker_def valid_date_def calendar_eval)

lemma example_domain:
  "valid_date (gilt_maturity (Conventional example_gilt))"
  "valid_date \<lparr>year = 2023, month = 12, day = 1\<rparr>"
  "min_coupon_days \<le> days_between (gilt_maturity (Conventional example_gilt))
      (gilt_issue_date (Conventional example_gilt))"
  "date_le (gilt_issue_date (Conventional example_gilt)) \<lparr>year = 2023, month = 12, day = 1\<rparr>"
  "date_le \<lparr>year = 2023, month = 12, day = 1\<rparr> (gilt_maturity (Conventional example_gilt))"
  "base_rpi_nonzero (Conventional example_gilt)"
  by (simp_all add: example_gilt_def valid_date_def calendar_eval)

lemma example_fraction:
  "spec_accrued_fraction prev_weekday example_gilt \<lparr>year = 2023, month = 12, day = 1\<rparr>
     \<lparr>year = 2023, month = 7, day = 31\<rparr> \<lparr>year = 2024, month = 1, day = 31\<rparr> = 123 / 184"
  by code_simp

lemma linker_fraction:
  "spec_accrued_fraction prev_weekday example_linker \<lparr>year = 2023, month = 12, day = 1\<rparr>
     \<lparr>year = 2023, month = 7, day = 31\<rparr> \<lparr>year = 2024, month = 1, day = 31\<rparr> = 123 / 184"
  unfolding spec_accrued_fraction_def
  by (simp add: example_xd example_linker_def calendar_eval)

lemma gilt_accrued_interest_eq:
  assumes "valid_date (gilt_maturity g)" and "valid_date s"
    and "min_coupon_days \<le> days_between (gilt_maturity g) (gilt_issue_date g)"
    and "date_le (gilt_issue_date g) s" and "date_le s (gilt_maturity g)"
    and "base_rpi_nonzero g"
  shows "case g of
      Conventional c \<Rightarrow>
        (\<exists>prev next. prev_next_coupon_date c s = Inr (prev, next)
           \<and> days_between next prev \<noteq> 0
           \<and> days_between prev (shift_month prev (- 6)) \<noteq> 0
           \<and> gilt_accrued_interest rounding pbd g s =
               Inr (spec_accrued_fraction pbd c s prev next * (coupon c / 2)))
    | IndexLinked l \<Rightarrow>
        (\<exists>prev next ir. prev_next_coupon_date l s = Inr (prev, next)
           \<and> days_between next prev \<noteq> 0
           \<and> days_between prev (shift_month prev (- 6)) \<noteq> 0
           \<and> index_ratio rounding l s None = Inr ir
           \<and> gilt_accrued_interest rounding pbd g s =
               Inr (spec_accrued_fraction pbd l s prev next * (coupon l / 2) * ir))"
proof (cases g)
  case (Conventional c)
  from accrued_interest_eq [of c s pbd] assms
  show ?thesis unfolding Conventional by simp
next
  case (IndexLinked l)
  from accrued_interest_eq [of l s pbd] assms
  obtain prev "next" where pn: "prev_next_coupon_date l s = Inr (prev, next)"
    and d: "days_between next prev \<noteq> 0" "days_between prev (shift_month prev (- 6)) \<noteq> 0"
    and a: "accrued_interest pbd l s = Inr (spec_accrued_fraction pbd l s prev next * (coupon l / 2))"
    unfolding IndexLinked by auto
  from index_ratio_returns [of s l rounding None] assms
  obtain ir where ir: "index_ratio rounding l s None = Inr ir" unfolding IndexLinked by auto
  have "gilt_accrued_interest rounding pbd (IndexLinked l) s =
      Inr (spec_accrued_fraction pbd l s prev next * (coupon l / 2) * ir)"
    by (simp add: il_accrued_interest_def a ir)
  then show ?thesis unfolding IndexLinked using pn d ir by simp
qed

text \<open>C1, as the code has it. For a gilt that lives at least \<open>min_coupon_days = 60\<close> days
  (with a base index that is not zero when it is index-linked) and a settlement date from
  its issue to its maturity, \<open>accrued_interest\<close> returns, for a conventional gilt, the
  accrued fraction of the specification, in its STANDARD, SHORT and LONG cases, times half
  the coupon; for an index-linked gilt, that product times the index ratio at the
  settlement date. No divisor of the fraction is zero.\<close>

theorem accrued_interest_formula:
  assumes "valid_date (gilt_maturity g)" and "valid_date s"
    and "min_coupon_days \<le> days_between (gilt_maturity g) (gilt_issue_date g)"
    and "date_le (gilt_issue_date g) s" and "date_le s (gilt_maturity g)"
    and "base_rpi_nonzero g"
  shows "case g of
      Conventional c \<Rightarrow>
        (\<exists>prev next. prev_next_coupon_date c s = Inr (prev, next)
           \<and> days_between next prev \<noteq> 0
           \<and> days_between prev (shift_month prev (- 6)) \<noteq> 0
           \<and> gilt_accrued_interest rounding pbd g s =
               Inr (spec_accrued_fraction pbd c s prev next * (coupon c / 2)))
    | IndexLinked l \<Rightarrow>
        (\<exists>prev next ir. prev_next_coupon_date l s = Inr (prev, next)
           \<and> days_between next prev \<noteq> 0
           \<and> days_between prev (shift_month prev (- 6)) \<noteq> 0
           \<and> index_ratio rounding l s None = Inr ir
           \<and> gilt_accrued_interest rounding pbd g s =
               Inr (spec_accrued_fraction pbd l s prev next * (coupon l / 2) * ir))"
  using assms by (rule gilt_accrued_interest_eq)

theorem accrued_interest_formula_witness:
  "valid_date (gilt_maturity (Conventional example_gilt))
   \<and> valid_date \<lparr>year = 2023, month = 12, day = 1\<rparr>
   \<and> min_coupon_days \<le> days_between (gilt_maturity (Conventional example_gilt))
        (gilt_issue_date (Conventional example_gilt))
   \<and> date_le (gilt_issue_date (Conventional example_gilt)) \<lparr>year = 2023, month = 12, day = 1\<rparr>
   \<and> date_le \<lparr>year = 2023, month = 12, day = 1\<rparr> (gilt_maturity (Conventional example_gilt))
   \<and> base_rpi_nonzero (Conventional example_gilt)
   \<and> gilt_accrued_interest py_round prev_weekday (Conventional example_gilt)
         \<lparr>year = 2023, month = 12, day = 1\<rparr> = Inr (123 / 184 * (coupon example_gilt / 2))
   \<and> valid_date (gilt_maturity (IndexLinked example_linker))
   \<and> min_coupon_days \<le> days_between (gilt_maturity (IndexLinked example_linker))
        (gilt_issue_date (IndexLinked example_linker))
   \<and> date_le (gilt_issue_date (IndexLinked example_linker)) \<lparr>year = 2023, month = 12, day = 1\<rparr>
   \<and> date_le \<lparr>year = 2023, month = 12, day = 1\<rparr> (gilt_maturity (IndexLinked example_linker))
   \<and> base_rpi_nonzero (IndexLinked example_linker)
   \<and> gilt_accrued_interest py_round prev_weekday (IndexLinked example_linker)
         \<lparr>year = 2023, month = 12, day = 1\<rparr> = Inr (123 / 184 * (coupon example_linker / 2) * (27 / 25))"
proof -
  from accrued_interest_formula [OF example_domain, of py_round prev_weekday]
  obtain prev "next" where pn: "prev_next_coupon_date example_gilt \<lparr>year = 2023, month = 12, day = 1\<rparr> = Inr (prev, next)"
    and a: "gilt_accrued_interest py_round prev_weekday (Conventional example_gilt)
         \<lparr>year = 2023, month = 12, day = 1\<rparr> =
       Inr (spec_accrued_fraction prev_weekday example_gilt \<lparr>year = 2023, month = 12, day = 1\<rparr> prev next
            * (coupon example_gilt / 2))"
    by auto
  have e: "prev = \<lparr>year = 2023, month = 7, day = 31\<rparr>" "next = \<lparr>year = 2024, month = 1, day = 31\<rparr>"
    using pn unfolding example_prev_next by simp_all
  have c: "gilt_accrued_interest py_round prev_weekday (Conventional example_gilt)
         \<lparr>year = 2023, month = 12, day = 1\<rparr> = Inr (123 / 184 * (coupon example_gilt / 2))"
    using a unfolding e example_fraction .
  from accrued_interest_formula [OF linker_domain, of py_round prev_weekday]
  obtain prev' next' ir where pn': "prev_next_coupon_date example_linker \<lparr>year = 2023, month = 12, day = 1\<rparr> = Inr (prev', next')"
    and ir: "index_ratio py_round example_linker \<lparr>year = 2023, month = 12, day = 1\<rparr> None = Inr ir"
    and a': "gilt_accrued_interest py_round prev_weekday (IndexLinked example_linker)
         \<lparr>year = 2023, month = 12, day = 1\<rparr> =
       Inr (spec_accrued_fraction prev_weekday example_linker \<lparr>year = 2023, month = 12, day = 1\<rparr> prev' next'
            * (coupon example_linker / 2) * ir)"
    by auto
  have e': "prev' = \<lparr>year = 2023, month = 7, day = 31\<rparr>" "next' = \<lparr>year = 2024, month = 1, day = 31\<rparr>"
    using pn' unfolding linker_prev_next by simp_all
  have i: "ir = 27 / 25" using ir unfolding linker_index_ratio by simp
  have l: "gilt_accrued_interest py_round prev_weekday (IndexLinked example_linker)
         \<lparr>year = 2023, month = 12, day = 1\<rparr> = Inr (123 / 184 * (coupon example_linker / 2) * (27 / 25))"
    using a' unfolding e' i linker_fraction .
  show ?thesis using c l example_domain linker_domain by blast
qed

text \<open>C1 as stated fails in two places. A gilt that lives less than \<open>min_coupon_days\<close> has no
  next coupon date and \<open>accrued_interest\<close> raises \<open>IndexError\<close>. For the index-linked example
  gilt, settled on 1 December 2023, the fraction times half the coupon is 123/2944, and
  \<open>accrued_interest\<close> returns that times the index ratio 1.08, which is 3321/73600.\<close>

theorem accrued_interest_formula_counterexample:
  "date_le (issue_date short_lived_gilt) \<lparr>year = 2024, month = 1, day = 15\<rparr>
   \<and> date_le \<lparr>year = 2024, month = 1, day = 15\<rparr> (maturity short_lived_gilt)
   \<and> 0 \<le> coupon short_lived_gilt
   \<and> gilt_accrued_interest py_round prev_weekday (Conventional short_lived_gilt)
        \<lparr>year = 2024, month = 1, day = 15\<rparr> = Inl IndexError
   \<and> date_le (issue_date example_linker) \<lparr>year = 2023, month = 12, day = 1\<rparr>
   \<and> date_le \<lparr>year = 2023, month = 12, day = 1\<rparr> (maturity example_linker)
   \<and> 0 \<le> coupon example_linker
   \<and> prev_next_coupon_date example_linker \<lparr>year = 2023, month = 12, day = 1\<rparr> =
        Inr (\<lparr>year = 2023, month = 7, day = 31\<rparr>, \<lparr>year = 2024, month = 1, day = 31\<rparr>)
   \<and> spec_accrued_fraction prev_weekday example_linker \<lparr>year = 2023, month = 12, day = 1\<rparr>
        \<lparr>year = 2023, month = 7, day = 31\<rparr> \<lparr>year = 2024, month = 1, day = 31\<rparr>
        * (coupon example_linker / 2) = 123 / 2944
   \<and> gilt_accrued_interest py_round prev_weekday (IndexLinked example_linker)
        \<lparr>year = 2023, month = 12, day = 1\<rparr> = Inr (3321 / 73600)
   \<and> (3321 / 73600 :: real) \<noteq> 123 / 2944"
proof -
  have s: "gilt_accrued_interest py_round prev_weekday (Conventional short_lived_gilt)
        \<lparr>year = 2024, month = 1, day = 15\<rparr> = Inl IndexError"
    unfolding gilt_accrued_interest.simps accrued_interest_def prev_next_coupon_date_def
      short_lived_coupon_dates by simp
  have c: "0 \<le> coupon short_lived_gilt" "0 \<le> coupon example_linker"
    by (simp_all add: short_lived_gilt_def example_linker_def)
  have f: "spec_accrued_fraction prev_weekday example_linker \<lparr>year = 2023, month = 12, day = 1\<rparr>
        \<lparr>year = 2023, month = 7, day = 31\<rparr> \<lparr>year = 2024, month = 1, day = 31\<rparr>
        * (coupon example_linker / 2) = 123 / 2944"
    unfolding linker_fraction by (simp add: example_linker_def)
  have l: "gilt_accrued_interest py_round prev_weekday (IndexLinked example_linker)
        \<lparr>year = 2023, month = 12, day = 1\<rparr> = Inr (3321 / 73600)"
    by (simp add: il_accrued_interest_def linker_accrued_interest linker_index_ratio)
  have n: "(3321 / 73600 :: real) \<noteq> 123 / 2944" by simp
  show ?thesis
    using s c f l n short_lived_settlement linker_domain(4,5) linker_prev_next by simp
qed

section \<open>The dirty price\<close>

lemma gilt_dirty_price_eq:
  assumes "valid_date (gilt_maturity g)" and "valid_date s"
    and "min_coupon_days \<le> days_between (gilt_maturity g) (gilt_issue_date g)"
    and "date_le (gilt_issue_date g) s" and "date_le s (gilt_maturity g)"
    and "base_rpi_nonzero g"
  shows "\<exists>a d f. gilt_accrued_interest rounding pbd g s = Inr a
     \<and> gilt_dirty_price rounding pbd g clean s = Inr d
     \<and> quote_factor rounding g s = Inr f \<and> d = clean * f + a"
proof (cases g)
  case (Conventional c)
  from accrued_interest_returns [of c s pbd] assms
  obtain a where a: "accrued_interest pbd c s = Inr a" unfolding Conventional by auto
  show ?thesis unfolding Conventional by (simp add: dirty_price_def a)
next
  case (IndexLinked l)
  from accrued_interest_returns [of l s pbd] assms
  obtain a where a: "accrued_interest pbd l s = Inr a" unfolding IndexLinked by auto
  from index_ratio_returns [of s l rounding None] assms
  obtain ir where ir: "index_ratio rounding l s None = Inr ir" unfolding IndexLinked by auto
  show ?thesis
    unfolding IndexLinked by (simp add: il_dirty_price_def il_accrued_interest_def a ir)
qed

text \<open>C3, as the code has it. For a gilt of either class that lives at least
  \<open>min_coupon_days = 60\<close> days, with a base index that is not zero, and a settlement date from
  its issue to its maturity, \<open>accrued_interest\<close> and \<open>dirty_price\<close> return, and the dirty
  price is the sum that the code forms: the quoted clean price times the quote factor, plus
  the accrued interest. The quote factor is 1 for a conventional gilt and for an
  index-linked gilt with a lag of eight months, and the index ratio at the settlement date
  for an index-linked gilt with a lag of three months.\<close>

theorem dirty_is_clean_plus_accrued:
  assumes "valid_date (gilt_maturity g)" and "valid_date s"
    and "min_coupon_days \<le> days_between (gilt_maturity g) (gilt_issue_date g)"
    and "date_le (gilt_issue_date g) s" and "date_le s (gilt_maturity g)"
    and "base_rpi_nonzero g"
  shows "\<exists>a d f. gilt_accrued_interest rounding pbd g s = Inr a
     \<and> gilt_dirty_price rounding pbd g clean s = Inr d
     \<and> quote_factor rounding g s = Inr f \<and> d = clean * f + a"
  using assms by (rule gilt_dirty_price_eq)

lemma linker_dirty_price:
  "gilt_accrued_interest py_round prev_weekday (IndexLinked example_linker)
         \<lparr>year = 2023, month = 12, day = 1\<rparr> = Inr (3321 / 73600)"
  "gilt_dirty_price py_round prev_weekday (IndexLinked example_linker) 100
         \<lparr>year = 2023, month = 12, day = 1\<rparr> = Inr (7952121 / 73600)"
  "quote_factor py_round (IndexLinked example_linker) \<lparr>year = 2023, month = 12, day = 1\<rparr>
     = Inr (27 / 25)"
  by (simp_all add: il_dirty_price_def il_accrued_interest_def linker_accrued_interest
      linker_index_ratio linker_lag)

theorem dirty_is_clean_plus_accrued_witness:
  "valid_date (gilt_maturity (IndexLinked example_linker))
   \<and> valid_date \<lparr>year = 2023, month = 12, day = 1\<rparr>
   \<and> min_coupon_days \<le> days_between (gilt_maturity (IndexLinked example_linker))
        (gilt_issue_date (IndexLinked example_linker))
   \<and> date_le (gilt_issue_date (IndexLinked example_linker)) \<lparr>year = 2023, month = 12, day = 1\<rparr>
   \<and> date_le \<lparr>year = 2023, month = 12, day = 1\<rparr> (gilt_maturity (IndexLinked example_linker))
   \<and> base_rpi_nonzero (IndexLinked example_linker)
   \<and> (\<exists>a d f. gilt_accrued_interest py_round prev_weekday (IndexLinked example_linker)
                  \<lparr>year = 2023, month = 12, day = 1\<rparr> = Inr a
         \<and> gilt_dirty_price py_round prev_weekday (IndexLinked example_linker) 100
                  \<lparr>year = 2023, month = 12, day = 1\<rparr> = Inr d
         \<and> quote_factor py_round (IndexLinked example_linker) \<lparr>year = 2023, month = 12, day = 1\<rparr> = Inr f
         \<and> d = 100 * f + a)
   \<and> gilt_dirty_price py_round prev_weekday (IndexLinked example_linker) 100
         \<lparr>year = 2023, month = 12, day = 1\<rparr> = Inr (7952121 / 73600)"
  using dirty_is_clean_plus_accrued [OF linker_domain, of py_round prev_weekday 100] linker_domain
    linker_dirty_price(2)
  by blast

text \<open>C3 as stated fails for an index-linked gilt with a lag of three months. The example gilt,
  quoted at a clean price of 100 and settled on 1 December 2023, has the index ratio 1.08:
  its dirty price less its accrued interest is 108, not 100.\<close>

theorem dirty_less_accrued_three_month_lag_counterexample:
  "lag example_linker = 3
   \<and> gilt_accrued_interest py_round prev_weekday (IndexLinked example_linker)
         \<lparr>year = 2023, month = 12, day = 1\<rparr> = Inr (3321 / 73600)
   \<and> gilt_dirty_price py_round prev_weekday (IndexLinked example_linker) 100
         \<lparr>year = 2023, month = 12, day = 1\<rparr> = Inr (7952121 / 73600)
   \<and> (7952121 / 73600 - 3321 / 73600 :: real) = 108
   \<and> (7952121 / 73600 - 3321 / 73600 :: real) \<noteq> 100"
  using linker_dirty_price linker_lag by simp

section \<open>Indexed cash flows\<close>














lemma linker_ref_rpi:
  "ref_rpi py_round example_linker \<lparr>year = 2023, month = 12, day = 1\<rparr>
     (Some (case None of None \<Rightarrow> inflation_rate | Some r \<Rightarrow> r)) = Inr 324"
  by (simp add: ref_rpi_def lag_def example_linker_def example_rpi_def py_round_def
     round_half_even_def true_div_def inflation_rate_def calendar_eval)

lemma old_linker_coupon_dates:
  "coupon_dates example_old_linker \<lparr>year = 2023, month = 12, day = 1\<rparr> =
     Inr (\<lparr>year = 2023, month = 7, day = 31\<rparr>,
          [\<lparr>year = 2024, month = 1, day = 31\<rparr>, \<lparr>year = 2024, month = 7, day = 31\<rparr>,
           \<lparr>year = 2025, month = 1, day = 31\<rparr>])"
  by (simp add: coupon_dates_def example_old_linker_def coupon_loop.simps calendar_eval)

lemma old_linker_lag: "lag example_old_linker = 8"
  by (simp add: lag_def example_old_linker_def calendar_eval)

lemma old_linker_ref_rpi:
  "ref_rpi py_round example_old_linker \<lparr>year = 2023, month = 12, day = 1\<rparr>
     (Some (case None of None \<Rightarrow> inflation_rate | Some r \<Rightarrow> r)) = Inr 312"
  unfolding ref_rpi_def prev_next_coupon_date_def old_linker_coupon_dates
  by (simp add: old_linker_lag) (simp add: example_old_linker_def example_rpi_def py_round_def
     round_half_even_def)

theorem index_ratio_rounding_witness:
  "ref_rpi py_round example_linker \<lparr>year = 2023, month = 12, day = 1\<rparr>
     (Some (case None of None \<Rightarrow> inflation_rate | Some r \<Rightarrow> r)) = Inr 324
   \<and> base_rpi example_linker \<noteq> 0
   \<and> lag example_linker = 3
   \<and> index_ratio py_round example_linker \<lparr>year = 2023, month = 12, day = 1\<rparr> None
       = Inr (py_round (324 / base_rpi example_linker) 5)
   \<and> (\<exists>x. (324::real) = py_round x 5)
   \<and> ref_rpi py_round example_old_linker \<lparr>year = 2023, month = 12, day = 1\<rparr>
     (Some (case None of None \<Rightarrow> inflation_rate | Some r \<Rightarrow> r)) = Inr 312
   \<and> base_rpi example_old_linker \<noteq> 0
   \<and> lag example_old_linker = 8
   \<and> index_ratio py_round example_old_linker \<lparr>year = 2023, month = 12, day = 1\<rparr> None
       = Inr (312 / base_rpi example_old_linker)"
proof -
  have b: "base_rpi example_linker \<noteq> 0" "base_rpi example_old_linker \<noteq> 0"
    by (simp_all add: example_linker_def example_old_linker_def)
  have l: "index_ratio py_round example_linker \<lparr>year = 2023, month = 12, day = 1\<rparr> None
       = Inr (py_round (324 / base_rpi example_linker) 5) \<and> (\<exists>x. (324::real) = py_round x 5)"
    using index_ratio_rounding [of py_round example_linker "\<lparr>year = 2023, month = 12, day = 1\<rparr>" None]
      b(1) linker_lag
    unfolding linker_ref_rpi by simp
  have "lag example_old_linker \<noteq> 3" using old_linker_lag by simp
  then have ol: "index_ratio py_round example_old_linker \<lparr>year = 2023, month = 12, day = 1\<rparr> None
       = Inr (312 / base_rpi example_old_linker)"
    using index_ratio_rounding [of py_round example_old_linker "\<lparr>year = 2023, month = 12, day = 1\<rparr>" None]
      b(2)
    unfolding old_linker_ref_rpi by simp
  show ?thesis using l ol linker_ref_rpi old_linker_ref_rpi b linker_lag old_linker_lag by blast
qed

section \<open>Yield to maturity\<close>


















section \<open>The order of the events\<close>

lemma sorted_pairs_same_first:
  fixes ks :: "(int \<times> int) list"
  assumes "sorted ks" "i < j" "j < length ks" "fst (ks ! i) = fst (ks ! j)"
  shows "snd (ks ! i) \<le> snd (ks ! j)"
proof -
  have "ks ! i \<le> ks ! j" using assms(1,2,3) by (simp add: sorted_nth_mono)
  then show ?thesis using assms(4) by (cases "ks ! i"; cases "ks ! j") (auto simp: less_eq_prod_def)
qed

text \<open>C7. \<open>sort_events\<close> leaves the events of a solve sorted by the key of date and kind and
  keeps every event, and the events with the same key keep their order (the sort is
  stable). The kinds are numbered CASH_FLOW < CONSUMPTION < TAX_YEAR_END < TAX_PAYMENT, so of
  two events with the same date the one that comes first in the sorted list, which the
  solve walks from its head, never has the greater kind: a cash flow comes before a
  withdrawal, a withdrawal before the end of a tax year, the end of a tax year before a
  tax payment.\<close>

theorem events_sorted_by_date_and_kind:
  "sorted (map event_key (sort_events events))
   \<and> mset (sort_events events) = mset events
   \<and> (\<forall>k. filter (\<lambda>ev. event_key ev = k) (sort_events events) = filter (\<lambda>ev. event_key ev = k) events)
   \<and> (\<forall>i j. i < j \<and> j < length (sort_events events)
          \<and> date (sort_events events ! i) = date (sort_events events ! j)
        \<longrightarrow> EventKind_value (kind (sort_events events ! i))
              \<le> EventKind_value (kind (sort_events events ! j)))
   \<and> EventKind_value CASH_FLOW < EventKind_value CONSUMPTION
   \<and> EventKind_value CONSUMPTION < EventKind_value TAX_YEAR_END
   \<and> EventKind_value TAX_YEAR_END < EventKind_value TAX_PAYMENT"
proof -
  let ?es = "sort_events events"
  have s: "sorted (map event_key ?es)" unfolding sort_events_def by simp
  have m: "mset ?es = mset events" unfolding sort_events_def by simp
  have st: "\<forall>k. filter (\<lambda>ev. event_key ev = k) ?es = filter (\<lambda>ev. event_key ev = k) events"
    unfolding sort_events_def by (simp add: sort_key_stable)
  have o: "\<forall>i j. i < j \<and> j < length ?es \<and> date (?es ! i) = date (?es ! j)
        \<longrightarrow> EventKind_value (kind (?es ! i)) \<le> EventKind_value (kind (?es ! j))"
  proof (intro allI impI)
    fix i j
    assume a: "i < j \<and> j < length ?es \<and> date (?es ! i) = date (?es ! j)"
    then have "fst (map event_key ?es ! i) = fst (map event_key ?es ! j)"
      by (simp add: event_key_def)
    then have "snd (map event_key ?es ! i) \<le> snd (map event_key ?es ! j)"
      using sorted_pairs_same_first [OF s, of i j] a by simp
    then show "EventKind_value (kind (?es ! i)) \<le> EventKind_value (kind (?es ! j))"
      using a by (simp add: event_key_def)
  qed
  show ?thesis using s m st o by simp
qed

lemma example_events_sorted:
  "map kind (sort_events example_events) = [TAX_YEAR_END, CASH_FLOW, CONSUMPTION, TAX_PAYMENT]"
  "map date (sort_events example_events) =
     [\<lparr>year = 2024, month = 4, day = 5\<rparr>, \<lparr>year = 2025, month = 1, day = 31\<rparr>,
      \<lparr>year = 2025, month = 1, day = 31\<rparr>, \<lparr>year = 2025, month = 1, day = 31\<rparr>]"
  by code_simp+

theorem events_sorted_by_date_and_kind_witness:
  "(1::nat) < 2 \<and> 2 < length (sort_events example_events)
   \<and> date (sort_events example_events ! 1) = date (sort_events example_events ! 2)
   \<and> EventKind_value (kind (sort_events example_events ! 1))
        \<le> EventKind_value (kind (sort_events example_events ! 2))
   \<and> kind (sort_events example_events ! 1) = CASH_FLOW
   \<and> kind (sort_events example_events ! 2) = CONSUMPTION
   \<and> map kind (sort_events example_events) = [TAX_YEAR_END, CASH_FLOW, CONSUMPTION, TAX_PAYMENT]"
proof -
  have l: "length (sort_events example_events) = 4"
    using arg_cong [OF example_events_sorted(1), of length] by simp
  have d: "date (sort_events example_events ! 1) = date (sort_events example_events ! 2)"
    using arg_cong [OF example_events_sorted(2), of "\<lambda>ds. ds ! 1 = ds ! 2"] l by simp
  have k1: "kind (sort_events example_events ! 1) = CASH_FLOW"
    using arg_cong [OF example_events_sorted(1), of "\<lambda>ks. ks ! 1"] l by simp
  have k2: "kind (sort_events example_events ! 2) = CONSUMPTION"
    using arg_cong [OF example_events_sorted(1), of "\<lambda>ks. ks ! 2"] l by simp
  have "(1::nat) < 2 \<and> 2 < length (sort_events example_events)
      \<and> date (sort_events example_events ! 1) = date (sort_events example_events ! 2)"
    using l d by simp
  then have "EventKind_value (kind (sort_events example_events ! 1))
        \<le> EventKind_value (kind (sort_events example_events ! 2))"
    using events_sorted_by_date_and_kind [of example_events] by blast
  then show ?thesis using l d k1 k2 example_events_sorted(1) by simp
qed

end
